theory Spec2Isabelle
  imports Complex_Main
begin

section \<open>The tax engine: \<open>calculateNigerianPIT\<close>\<close>

text \<open>
  The service file \<open>geminiService.ts\<close> defines \<open>calculateNigerianPIT\<close> over the
  TypeScript type \<open>number\<close>. A finite \<open>number\<close> is modelled as a \<open>real\<close>, so the
  arithmetic below is exact: the rounding of IEEE doubles is not part of the model. The one
  non-finite value the function uses, the width \<open>Infinity\<close> of the last band, is a
  constructor of its own.
\<close>

record TaxBreakdown =
  grossIncome :: real
  consolidatedRelief :: real
  taxableIncome :: real
  totalTax :: real
  effectiveRate :: real

datatype band_limit = Finite real | Infinity

record band =
  limit :: band_limit
  rate :: real

text \<open>\<open>Math.min(remaining, band.limit)\<close>: the minimum with \<open>Infinity\<close> is the other argument.\<close>

fun Math_min :: "real \<Rightarrow> band_limit \<Rightarrow> real" where
  "Math_min r (Finite l) = min r l"
| "Math_min r Infinity = r"

definition bands :: "band list" where
  "bands =
    [\<lparr>limit = Finite 300000, rate = 0.07\<rparr>,
     \<lparr>limit = Finite 300000, rate = 0.11\<rparr>,
     \<lparr>limit = Finite 500000, rate = 0.15\<rparr>,
     \<lparr>limit = Finite 500000, rate = 0.19\<rparr>,
     \<lparr>limit = Finite 1600000, rate = 0.21\<rparr>,
     \<lparr>limit = Infinity, rate = 0.24\<rparr>]"

text \<open>
  The state of the loop \<open>for (const band of bands)\<close>: the two variables \<open>tax\<close> and
  \<open>remaining\<close> of the source, and a ghost list \<open>taxed\<close> that records the value of
  \<open>taxableAtThisBand\<close> of every iteration that ran, in order. The ghost list is never read
  by the loop.
\<close>

record loop_state =
  tax :: real
  remaining :: real
  taxed :: "real list"

fun band_loop :: "band list \<Rightarrow> loop_state \<Rightarrow> loop_state" where
  "band_loop [] s = s"
| "band_loop (b # bs) s =
     (if remaining s \<le> 0 then s
      else
        let taxableAtThisBand = Math_min (remaining s) (limit b)
        in band_loop bs
             \<lparr>tax = tax s + taxableAtThisBand * rate b,
              remaining = remaining s - taxableAtThisBand,
              taxed = taxed s @ [taxableAtThisBand]\<rparr>)"

definition run_bands :: "real \<Rightarrow> loop_state" where
  "run_bands taxable = band_loop bands \<lparr>tax = 0, remaining = taxable, taxed = []\<rparr>"

definition calculateNigerianPIT :: "real \<Rightarrow> TaxBreakdown" where
  "calculateNigerianPIT gross =
     (let baseRelief = max 200000 (gross * 0.01);
          variableRelief = gross * 0.20;
          relief = baseRelief + variableRelief;
          taxable = max 0 (gross - relief);
          final = run_bands taxable
      in \<lparr>grossIncome = gross,
          consolidatedRelief = relief,
          taxableIncome = taxable,
          totalTax = tax final,
          effectiveRate = (if gross > 0 then (tax final / gross) * 100 else 0)\<rparr>)"

text \<open>
  Division by zero raises no error in JavaScript, and in HOL \<open>x / 0 = 0\<close>, so the value of
  \<open>effectiveRate\<close> alone does not show whether the guard \<open>grossIncome > 0\<close> is there. The
  ghost function below lists the divisors that the evaluation of the \<open>effectiveRate\<close>
  expression divides by: \<open>grossIncome\<close> in the guarded branch, nothing in the other.
\<close>

definition effectiveRate_divisors :: "real \<Rightarrow> real list" where
  "effectiveRate_divisors gross = (if gross > 0 then [gross] else [])"

section \<open>Strings\<close>

text \<open>
  A JavaScript string is a sequence of UTF-16 code units. It is modelled as a \<open>string\<close>,
  whose characters stand for the code units below 256 (ASCII and Latin-1); texts with other
  code units are outside the model. The functions below are the methods of \<open>String\<close> that
  \<open>extractTransactionsFromDocument\<close> calls, restricted to such strings.
\<close>

text \<open>\<open>s.startsWith(p)\<close>, \<open>s.endsWith(p)\<close> and \<open>s.includes(p)\<close> (\<open>str_includes\<close>).\<close>

fun startsWith :: "string \<Rightarrow> string \<Rightarrow> bool" where
  "startsWith s [] = True"
| "startsWith [] (p # ps) = False"
| "startsWith (c # cs) (p # ps) = (c = p \<and> startsWith cs ps)"

definition endsWith :: "string \<Rightarrow> string \<Rightarrow> bool" where
  "endsWith s p = startsWith (rev s) (rev p)"

fun str_includes :: "string \<Rightarrow> string \<Rightarrow> bool" where
  "str_includes [] p = startsWith [] p"
| "str_includes (c # cs) p = (startsWith (c # cs) p \<or> str_includes cs p)"

text \<open>
  \<open>s.toLowerCase()\<close>: below 256 the letters with a lower-case form are \<open>A\<close> to \<open>Z\<close>
  and the Latin-1 capitals 192 to 222 (215, the multiplication sign, is no letter); each
  moves up by 32.
\<close>

definition toLowerCase_unit :: "char \<Rightarrow> char" where
  "toLowerCase_unit c =
     (let n = (of_char c :: nat)
      in if (65 \<le> n \<and> n \<le> 90) \<or> (192 \<le> n \<and> n \<le> 222 \<and> n \<noteq> 215)
         then char_of (n + 32) else c)"

definition toLowerCase :: "string \<Rightarrow> string" where
  "toLowerCase s = map toLowerCase_unit s"

text \<open>
  \<open>s.trim()\<close> removes white space and line terminators from both ends; below 256 these
  are the code units 9 to 13, 32 and 160.
\<close>

definition isWhiteSpace :: "char \<Rightarrow> bool" where
  "isWhiteSpace c =
     (let n = (of_char c :: nat) in (9 \<le> n \<and> n \<le> 13) \<or> n = 32 \<or> n = 160)"

definition trim :: "string \<Rightarrow> string" where
  "trim s = rev (dropWhile isWhiteSpace (rev (dropWhile isWhiteSpace s)))"

text \<open>
  \<open>s.replace(/p/g, r)\<close> for a pattern \<open>p\<close> that is a literal text: every match is
  replaced, scanning from the left, and the scan goes on after the match.
\<close>

function replace_g :: "string \<Rightarrow> string \<Rightarrow> string \<Rightarrow> string" where
  "replace_g p r [] = []"
| "replace_g p r (c # cs) =
     (if p \<noteq> [] \<and> startsWith (c # cs) p
      then r @ replace_g p r (drop (length p) (c # cs))
      else c # replace_g p r cs)"
  by pat_completeness auto
termination
  by (relation "measure (\<lambda>(p, r, s). length s)") (auto simp: neq_Nil_conv)

text \<open>\<open>s.lastIndexOf(c)\<close> for a single character: the last position of \<open>c\<close>, or \<open>-1\<close>.\<close>

fun lastIndexOf_from :: "string \<Rightarrow> char \<Rightarrow> int \<Rightarrow> int \<Rightarrow> int" where
  "lastIndexOf_from [] c i found = found"
| "lastIndexOf_from (x # xs) c i found =
     lastIndexOf_from xs c (i + 1) (if x = c then i else found)"

definition lastIndexOf :: "string \<Rightarrow> char \<Rightarrow> int" where
  "lastIndexOf s c = lastIndexOf_from s c 0 (- 1)"

text \<open>\<open>s.substring(0, e)\<close>: a negative end counts as 0, an end past the text as its length.\<close>

definition substring0 :: "string \<Rightarrow> int \<Rightarrow> string" where
  "substring0 s e = take (nat e) s"

text \<open>\<open>s.split(sep)\<close> for a single-character separator; the result is never empty.\<close>

fun split :: "char \<Rightarrow> string \<Rightarrow> string list" where
  "split sep [] = [[]]"
| "split sep (c # cs) =
     (if c = sep then [] # split sep cs
      else (case split sep cs of
              [] \<Rightarrow> [[c]]
            | w # ws \<Rightarrow> (c # w) # ws))"

section \<open>JSON values and \<open>JSON.parse\<close>\<close>

text \<open>
  \<open>JSON.parse\<close> belongs to the platform, not to the repository. The pipeline below takes
  it as a parameter, so what is proved of the pipeline holds for any parser. To run the
  pipeline on a concrete response, \<open>parse_json_text\<close> models the platform's parser after the
  JSON grammar: white space, the three literals, numbers (read exactly, as reals), strings
  with their escapes, arrays and objects. An object is the list of its members in the order
  of the text. An escape \<open>\uXXXX\<close> that denotes a code unit of 256 or more has no
  character in the string model and is refused here, although the platform accepts it.
  The parser recurses on a fuel counter; \<open>parse_json_text\<close> starts it with twice the length of
  the text plus two, which is enough: more fuel never changes the result
  (\<open>parse_json_text_fuel\<close> below).
\<close>

datatype json =
    JNull
  | JBool bool
  | JNumber real
  | JString string
  | JArray "json list"
  | JObject "(string \<times> json) list"

definition json_ws :: "char \<Rightarrow> bool" where
  "json_ws c = (let n = (of_char c :: nat) in n = 9 \<or> n = 10 \<or> n = 13 \<or> n = 32)"

definition is_digit :: "char \<Rightarrow> bool" where
  "is_digit c = (let n = (of_char c :: nat) in 48 \<le> n \<and> n \<le> 57)"

definition digits_val :: "string \<Rightarrow> nat" where
  "digits_val ds = foldl (\<lambda>a d. 10 * a + (of_char d - 48)) 0 ds"

definition hex_val :: "char \<Rightarrow> nat option" where
  "hex_val c =
     (let n = (of_char c :: nat)
      in if 48 \<le> n \<and> n \<le> 57 then Some (n - 48)
         else if 65 \<le> n \<and> n \<le> 70 then Some (n - 55)
         else if 97 \<le> n \<and> n \<le> 102 then Some (n - 87)
         else None)"

definition hex4 :: "char \<Rightarrow> char \<Rightarrow> char \<Rightarrow> char \<Rightarrow> nat option" where
  "hex4 a b c d =
     (case (hex_val a, hex_val b, hex_val c, hex_val d) of
        (Some w, Some x, Some y, Some z) \<Rightarrow> Some (((w * 16 + x) * 16 + y) * 16 + z)
      | _ \<Rightarrow> None)"

definition unescape :: "char \<Rightarrow> char option" where
  "unescape e =
     (let n = (of_char e :: nat)
      in if n = 34 \<or> n = 92 \<or> n = 47 then Some e
         else if n = 98 then Some (CHR 0x08)
         else if n = 102 then Some (CHR 0x0C)
         else if n = 110 then Some (CHR 0x0A)
         else if n = 114 then Some (CHR 0x0D)
         else if n = 116 then Some (CHR 0x09)
         else None)"

definition cons_char :: "char \<Rightarrow> (string \<times> string) option \<Rightarrow> (string \<times> string) option" where
  "cons_char c res = (case res of None \<Rightarrow> None | Some (str, rest) \<Rightarrow> Some (c # str, rest))"

text \<open>The characters of a string after its opening quote, up to the closing quote.\<close>

fun parse_string :: "string \<Rightarrow> (string \<times> string) option" where
  "parse_string [] = None"
| "parse_string (c # cs) =
     (if (of_char c :: nat) = 34 then Some ([], cs)
      else if (of_char c :: nat) = 92 then
        (case cs of
           [] \<Rightarrow> None
         | e # r \<Rightarrow>
             if (of_char e :: nat) = 117 then
               (case r of
                  h1 # h2 # h3 # h4 # r' \<Rightarrow>
                    (case hex4 h1 h2 h3 h4 of
                       None \<Rightarrow> None
                     | Some n \<Rightarrow> if n < 256 then cons_char (char_of n) (parse_string r') else None)
                | _ \<Rightarrow> None)
             else
               (case unescape e of
                  None \<Rightarrow> None
                | Some ch \<Rightarrow> cons_char ch (parse_string r)))
      else if (of_char c :: nat) < 32 then None
      else cons_char c (parse_string cs))"

text \<open>
  A number: an optional minus, an integer part without a leading zero, an optional fraction,
  an optional exponent.
\<close>

definition scale10 :: "real \<Rightarrow> int \<Rightarrow> real" where
  "scale10 x e = (if 0 \<le> e then x * 10 ^ nat e else x / 10 ^ nat (- e))"

definition parse_exponent :: "string \<Rightarrow> (int \<times> string) option" where
  "parse_exponent s =
     (case s of
        [] \<Rightarrow> Some (0, s)
      | c # cs \<Rightarrow>
          if c = CHR ''e'' \<or> c = CHR ''E'' then
            (let neg = (case cs of [] \<Rightarrow> False | x # _ \<Rightarrow> x = CHR ''-'');
                 signed = (case cs of [] \<Rightarrow> False | x # _ \<Rightarrow> x = CHR ''-'' \<or> x = CHR ''+'');
                 ds = (if signed then tl cs else cs);
                 es = takeWhile is_digit ds
             in if es = [] then None
                else Some ((if neg then - int (digits_val es) else int (digits_val es)),
                           dropWhile is_digit ds))
          else Some (0, s))"

definition parse_fraction :: "string \<Rightarrow> (real \<times> string) option" where
  "parse_fraction s =
     (case s of
        [] \<Rightarrow> Some (0, s)
      | c # cs \<Rightarrow>
          if c = CHR ''.'' then
            (let fs = takeWhile is_digit cs
             in if fs = [] then None
                else Some (real (digits_val fs) / 10 ^ length fs, dropWhile is_digit cs))
          else Some (0, s))"

definition parse_number :: "string \<Rightarrow> (real \<times> string) option" where
  "parse_number s =
     (let neg = (case s of [] \<Rightarrow> False | c # _ \<Rightarrow> c = CHR ''-'');
          s1 = (if neg then tl s else s);
          ds = takeWhile is_digit s1
      in if ds = [] \<or> (1 < length ds \<and> hd ds = CHR ''0'') then None
         else
           (case parse_fraction (dropWhile is_digit s1) of
              None \<Rightarrow> None
            | Some (f, s2) \<Rightarrow>
                (case parse_exponent s2 of
                   None \<Rightarrow> None
                 | Some (e, s3) \<Rightarrow>
                     Some (scale10 ((if neg then - 1 else 1) * (real (digits_val ds) + f)) e, s3))))"

text \<open>A value that is neither an array nor an object, at the head of a text without leading white space.\<close>

definition parse_scalar :: "string \<Rightarrow> (json \<times> string) option" where
  "parse_scalar t =
     (if startsWith t [CHR 0x22] then
        (case parse_string (tl t) of None \<Rightarrow> None | Some (str, r) \<Rightarrow> Some (JString str, r))
      else if startsWith t ''true'' then Some (JBool True, drop 4 t)
      else if startsWith t ''false'' then Some (JBool False, drop 5 t)
      else if startsWith t ''null'' then Some (JNull, drop 4 t)
      else (case parse_number t of None \<Rightarrow> None | Some (x, r) \<Rightarrow> Some (JNumber x, r)))"

text \<open>The name of a member and the colon after it.\<close>

definition parse_key :: "string \<Rightarrow> (string \<times> string) option" where
  "parse_key s =
     (let t = dropWhile json_ws s
      in if startsWith t [CHR 0x22] then
           (case parse_string (tl t) of
              None \<Rightarrow> None
            | Some (k, r) \<Rightarrow>
                (let u = dropWhile json_ws r
                 in if startsWith u '':'' then Some (k, tl u) else None))
         else None)"

fun parse_value :: "nat \<Rightarrow> string \<Rightarrow> (json \<times> string) option"
  and parse_elements :: "nat \<Rightarrow> string \<Rightarrow> json list \<Rightarrow> (json \<times> string) option"
  and parse_members :: "nat \<Rightarrow> string \<Rightarrow> (string \<times> json) list \<Rightarrow> (json \<times> string) option"
where
  "parse_value 0 s = None"
| "parse_value (Suc n) s =
     (let t = dropWhile json_ws s; u = dropWhile json_ws (tl t)
      in if startsWith t ''['' then
           (if startsWith u '']'' then Some (JArray [], tl u) else parse_elements n (tl t) [])
         else if startsWith t ''{'' then
           (if startsWith u ''}'' then Some (JObject [], tl u) else parse_members n (tl t) [])
         else parse_scalar t)"
| "parse_elements 0 s acc = None"
| "parse_elements (Suc n) s acc =
     (case parse_value n s of
        None \<Rightarrow> None
      | Some vr \<Rightarrow>
          (let t = dropWhile json_ws (snd vr)
           in if startsWith t '','' then parse_elements n (tl t) (acc @ [fst vr])
              else if startsWith t '']'' then Some (JArray (acc @ [fst vr]), tl t)
              else None))"
| "parse_members 0 s acc = None"
| "parse_members (Suc n) s acc =
     (case parse_key s of
        None \<Rightarrow> None
      | Some kr \<Rightarrow>
          (case parse_value n (snd kr) of
             None \<Rightarrow> None
           | Some vr \<Rightarrow>
               (let t = dropWhile json_ws (snd vr)
                in if startsWith t '','' then parse_members n (tl t) (acc @ [(fst kr, fst vr)])
                   else if startsWith t ''}'' then Some (JObject (acc @ [(fst kr, fst vr)]), tl t)
                   else None)))"

definition parse_json_text :: "string \<Rightarrow> json option" where
  "parse_json_text s =
     (case parse_value (2 * length s + 2) s of
        None \<Rightarrow> None
      | Some (v, r) \<Rightarrow> if dropWhile json_ws r = [] then Some v else None)"

section \<open>The extraction pipeline: \<open>extractTransactionsFromDocument\<close>\<close>

text \<open>
  The repository holds two revisions of \<open>geminiService.ts\<close>, one after the other in the
  same source file. Revision A (lines 1 to 200) selects the model by payload size as well as
  by provider and repairs a truncated response; revision B (lines 201 to 386) does neither
  and has its own error mapping. Both are modelled, with the suffixes \<open>_A\<close> and \<open>_B\<close>.

  The function is asynchronous and talks to the provider. The model makes the platform
  explicit: the environment variable \<open>API_KEY\<close>, the provider call
  \<open>ai.models.generateContent\<close> as a function of the number of calls made before and of the
  request, and \<open>JSON.parse\<close>. A rejected promise is the left summand, carrying the message
  of the \<open>Error\<close>. The list of requests sent so far is threaded through as a ghost log.
\<close>

datatype ModelProvider = GEMINI_FLASH | GEMINI_PRO | GROK_BETA

text \<open>A thrown value, as the \<open>catch\<close> block reads it: \<open>error.message\<close> and \<open>error.toString()\<close>.\<close>

record thrown =
  message :: "string option"
  toString :: string

text \<open>What one provider call does: it throws, or it answers with \<open>response.text\<close>, which may be undefined.\<close>

datatype response = Throws thrown | Text "string option"

text \<open>
  The request: the model and the inline data. The prompt, the response schema and the safety
  settings are constants of each revision and are left out.
\<close>

record request =
  model :: string
  inline_mimeType :: string
  inline_data :: string

record platform =
  API_KEY :: "string option"
  generateContent :: "nat \<Rightarrow> request \<Rightarrow> response"
  JSON_parse :: "string \<Rightarrow> json option"

type_synonym outcome = "string + json"

text \<open>\<open>!x\<close> for a value that is a string or undefined.\<close>

definition falsy :: "string option \<Rightarrow> bool" where
  "falsy x = (case x of None \<Rightarrow> True | Some t \<Rightarrow> t = [])"

definition text_of :: "string option \<Rightarrow> string" where
  "text_of x = (case x of None \<Rightarrow> [] | Some t \<Rightarrow> t)"

text \<open>\<open>base64Data.split(',')[1] || base64Data\<close>\<close>

definition cleanBase64_of :: "string \<Rightarrow> string" where
  "cleanBase64_of base64Data =
     (case split (CHR '','') base64Data of
        _ # part # _ \<Rightarrow> if part = [] then base64Data else part
      | _ \<Rightarrow> base64Data)"

definition approximateSizeInMB :: "string \<Rightarrow> real" where
  "approximateSizeInMB cleanBase64 = (real (length cleanBase64) * 0.75) / (1024 * 1024)"

definition modelName_A :: "string \<Rightarrow> ModelProvider \<Rightarrow> string" where
  "modelName_A cleanBase64 provider =
     (if approximateSizeInMB cleanBase64 > 10 \<or> provider = GEMINI_PRO \<or> provider = GROK_BETA
      then ''gemini-3-pro-preview'' else ''gemini-flash-latest'')"

definition modelName_B :: "ModelProvider \<Rightarrow> string" where
  "modelName_B provider =
     (if provider = GEMINI_PRO \<or> provider = GROK_BETA
      then ''gemini-3-pro-preview'' else ''gemini-flash-latest'')"

definition request_A :: "string \<Rightarrow> string \<Rightarrow> ModelProvider \<Rightarrow> request" where
  "request_A base64Data mimeType provider =
     \<lparr>model = modelName_A (cleanBase64_of base64Data) provider,
      inline_mimeType = mimeType,
      inline_data = cleanBase64_of base64Data\<rparr>"

definition request_B :: "string \<Rightarrow> string \<Rightarrow> ModelProvider \<Rightarrow> request" where
  "request_B base64Data mimeType provider =
     \<lparr>model = modelName_B provider,
      inline_mimeType = mimeType,
      inline_data = cleanBase64_of base64Data\<rparr>"

text \<open>\<open>error.message || error.toString()\<close>, and \<open>errStr\<close>, its lower-case form.\<close>

definition error_text :: "thrown \<Rightarrow> string" where
  "error_text error = (if falsy (message error) then toString error else text_of (message error))"

definition errStr_of :: "thrown \<Rightarrow> string" where
  "errStr_of error = toLowerCase (error_text error)"

text \<open>The two error mappings (step 4 of each revision): \<open>friendlyMessage\<close> from \<open>errStr\<close>.\<close>

definition msg_default :: string where
  "msg_default = ''Failed to process document.''"

definition msg_access_denied :: string where
  "msg_access_denied = ''Access Denied: Invalid or Missing API Key.''"

definition msg_traffic :: string where
  "msg_traffic = ''Traffic limit exceeded. Retrying automatically usually fixes this.''"

definition msg_complex :: string where
  "msg_complex = ''The document structure is too complex for the engine. Please try converting to an Image or creating a simpler PDF.''"

definition msg_illegible :: string where
  "msg_illegible = ''Failed to parse the financial data. The document might be illegible.''"

definition msg_unavailable_A :: string where
  "msg_unavailable_A = ''Engine Error: The selected model is not available. Please try switching between Flash and Grok/Pro.''"

definition msg_unavailable_B :: string where
  "msg_unavailable_B = ''Engine Error: The selected model is not available. Please try switching between Flash and Grok.''"

definition friendlyMessage_A :: "string \<Rightarrow> string" where
  "friendlyMessage_A errStr =
     (if str_includes errStr ''api key'' \<or> str_includes errStr ''403'' then msg_access_denied
      else if str_includes errStr ''404'' \<or> str_includes errStr ''not found'' then
        msg_unavailable_A
      else if str_includes errStr ''quota'' \<or> str_includes errStr ''429'' then msg_traffic
      else if str_includes errStr ''too large'' \<or> str_includes errStr ''payload''
              \<or> str_includes errStr ''413'' then
        ''The document size exceeds the secure transmission limit (20MB encoded). Please try compressing your PDF or converting to grayscale to reduce size.''
      else if str_includes errStr ''token count'' \<or> str_includes errStr ''limit'' then
        ''This document is extremely dense. We have automatically switched to High-Capacity mode, but it may still be too large. Please split the PDF.''
      else if str_includes errStr ''dependency'' \<or> str_includes errStr ''internal'' then msg_complex
      else msg_default)"

definition friendlyMessage_B :: "ModelProvider \<Rightarrow> string \<Rightarrow> string" where
  "friendlyMessage_B provider errStr =
     (if str_includes errStr ''api key'' \<or> str_includes errStr ''403'' then msg_access_denied
      else if str_includes errStr ''404'' \<or> str_includes errStr ''not found'' then
        msg_unavailable_B
      else if str_includes errStr ''quota'' \<or> str_includes errStr ''429'' then msg_traffic
      else if str_includes errStr ''token count'' \<or> str_includes errStr ''1048576''
              \<or> str_includes errStr ''too large'' then
        (if provider = GEMINI_FLASH
         then ''This document is too large for the Flash engine. Please switch to 'Grok (Beta)' for higher capacity.''
         else ''This document exceeds the 2 Million token limit. Please split the PDF.'')
      else if str_includes errStr ''dependency'' \<or> str_includes errStr ''internal'' then msg_complex
      else if str_includes errStr ''security'' \<or> str_includes errStr ''blocked'' then
        ''The document was flagged by security filters. Try a different file.''
      else msg_default)"

text \<open>The outer \<open>catch\<close> block: the message of the \<open>Error\<close> it throws.\<close>

definition catch_A :: "ModelProvider \<Rightarrow> string \<Rightarrow> thrown \<Rightarrow> string" where
  "catch_A provider modelName error =
     (let friendlyMessage = friendlyMessage_A (errStr_of error)
      in if provider = GROK_BETA \<or> modelName = ''gemini-3-pro-preview''
         then ''[Pro Audit] '' @ friendlyMessage else friendlyMessage)"

definition catch_B :: "ModelProvider \<Rightarrow> thrown \<Rightarrow> string" where
  "catch_B provider error =
     (let friendlyMessage = friendlyMessage_B provider (errStr_of error)
      in if provider = GROK_BETA then ''[Grok Beta] '' @ friendlyMessage else friendlyMessage)"

text \<open>\<open>new Error(msg)\<close>, and the one that the inner \<open>catch (parseError)\<close> throws, inside the outer \<open>try\<close>.\<close>

definition Error_of :: "string \<Rightarrow> thrown" where
  "Error_of msg = \<lparr>message = Some msg, toString = ''Error: '' @ msg\<rparr>"

definition parse_failure :: thrown where
  "parse_failure = Error_of msg_illegible"

text \<open>Step 3: the text handed to \<open>JSON.parse\<close>. Revision A repairs a truncated array.\<close>

definition strip_fences :: "string \<Rightarrow> string" where
  "strip_fences jsonText = trim (replace_g ''```'' [] (replace_g ''```json'' [] jsonText))"

definition cleanJson_A :: "string \<Rightarrow> string" where
  "cleanJson_A jsonText =
     (let cleanJson = strip_fences jsonText
      in if startsWith cleanJson ''['' \<and> \<not> endsWith cleanJson '']'' then
           (let lastClosingBrace = lastIndexOf cleanJson (CHR ''}'')
            in if lastClosingBrace \<noteq> - 1
               then substring0 cleanJson (lastClosingBrace + 1) @ '']''
               else cleanJson)
         else cleanJson)"

definition cleanJson_B :: "string \<Rightarrow> string" where
  "cleanJson_B jsonText = strip_fences jsonText"

definition parse_A :: "platform \<Rightarrow> ModelProvider \<Rightarrow> string \<Rightarrow> string \<Rightarrow> outcome" where
  "parse_A P provider modelName jsonText =
     (case JSON_parse P (cleanJson_A jsonText) of
        None \<Rightarrow> Inl (catch_A provider modelName parse_failure)
      | Some v \<Rightarrow> Inr v)"

definition parse_B :: "platform \<Rightarrow> ModelProvider \<Rightarrow> string \<Rightarrow> outcome" where
  "parse_B P provider jsonText =
     (case JSON_parse P (cleanJson_B jsonText) of
        None \<Rightarrow> Inl (catch_B provider parse_failure)
      | Some v \<Rightarrow> Inr v)"

text \<open>
  The function itself. The retry is \<open>return extractTransactionsFromDocument(...)\<close> without
  \<open>await\<close>: the promise of the inner call is returned as it is, and a rejection of it does
  not pass through the \<open>catch\<close> block of the outer call.
\<close>

function extractTransactionsFromDocument_A ::
  "platform \<Rightarrow> request list \<Rightarrow> string \<Rightarrow> string \<Rightarrow> ModelProvider \<Rightarrow> int
     \<Rightarrow> outcome \<times> request list"
where
  "extractTransactionsFromDocument_A P sent base64Data mimeType provider retryCount =
     (if falsy (API_KEY P) then (Inl ''System Configuration Error: API Key is missing.'', sent)
      else
        (case generateContent P (length sent) (request_A base64Data mimeType provider) of
           Throws error \<Rightarrow>
             (Inl (catch_A provider (modelName_A (cleanBase64_of base64Data) provider) error),
              sent @ [request_A base64Data mimeType provider])
         | Text jsonText \<Rightarrow>
             if falsy jsonText then
               (if retryCount < 1 then
                  extractTransactionsFromDocument_A P
                    (sent @ [request_A base64Data mimeType provider])
                    base64Data mimeType provider (retryCount + 1)
                else (Inr (JArray []), sent @ [request_A base64Data mimeType provider]))
             else
               (parse_A P provider (modelName_A (cleanBase64_of base64Data) provider)
                  (text_of jsonText),
                sent @ [request_A base64Data mimeType provider])))"
  by pat_completeness auto
termination
  by (relation "measure (\<lambda>(P, sent, base64Data, mimeType, provider, retryCount). nat (1 - retryCount))")
     auto

function extractTransactionsFromDocument_B ::
  "platform \<Rightarrow> request list \<Rightarrow> string \<Rightarrow> string \<Rightarrow> ModelProvider \<Rightarrow> int
     \<Rightarrow> outcome \<times> request list"
where
  "extractTransactionsFromDocument_B P sent base64Data mimeType provider retryCount =
     (if falsy (API_KEY P) then (Inl ''System Configuration Error: API Key is missing.'', sent)
      else
        (case generateContent P (length sent) (request_B base64Data mimeType provider) of
           Throws error \<Rightarrow>
             (Inl (catch_B provider error), sent @ [request_B base64Data mimeType provider])
         | Text jsonText \<Rightarrow>
             if falsy jsonText then
               (if retryCount < 1 then
                  extractTransactionsFromDocument_B P
                    (sent @ [request_B base64Data mimeType provider])
                    base64Data mimeType provider (retryCount + 1)
                else (Inr (JArray []), sent @ [request_B base64Data mimeType provider]))
             else
               (parse_B P provider (text_of jsonText),
                sent @ [request_B base64Data mimeType provider])))"
  by pat_completeness auto
termination
  by (relation "measure (\<lambda>(P, sent, base64Data, mimeType, provider, retryCount). nat (1 - retryCount))")
     auto

declare extractTransactionsFromDocument_A.simps [simp del]
declare extractTransactionsFromDocument_B.simps [simp del]

text \<open>
  A call as the application makes it: three arguments, so \<open>retryCount\<close> takes its default
  \<open>0\<close>, and nothing has been sent yet.
\<close>

definition extract_A :: "platform \<Rightarrow> string \<Rightarrow> string \<Rightarrow> ModelProvider \<Rightarrow> outcome \<times> request list" where
  "extract_A P base64Data mimeType provider =
     extractTransactionsFromDocument_A P [] base64Data mimeType provider 0"

definition extract_B :: "platform \<Rightarrow> string \<Rightarrow> string \<Rightarrow> ModelProvider \<Rightarrow> outcome \<times> request list" where
  "extract_B P base64Data mimeType provider =
     extractTransactionsFromDocument_B P [] base64Data mimeType provider 0"

text \<open>
  Platforms for concrete runs: the key is set, the provider answers its \<open>i\<close>-th call with the
  \<open>i\<close>-th scripted response (and with no text once the script is used up), and
  \<open>JSON.parse\<close> is the parser of the section above.
\<close>

definition scripted :: "response list \<Rightarrow> nat \<Rightarrow> request \<Rightarrow> response" where
  "scripted rs i req = (if i < length rs then rs ! i else Text None)"

definition test_platform :: "response list \<Rightarrow> platform" where
  "test_platform rs =
     \<lparr>API_KEY = Some ''test-key'', generateContent = scripted rs, JSON_parse = parse_json_text\<rparr>"

text \<open>The inputs of the concrete runs below.\<close>

definition truncated_response :: string where
  \<open>truncated_response =
     ''[{"date":"2024-01-01","description":"Salary","amount":500000,"type":"CREDIT"},{"date":"2024-01-02","desc''\<close>

definition salary_transaction :: json where
  "salary_transaction =
     JObject [(''date'', JString ''2024-01-01''), (''description'', JString ''Salary''),
              (''amount'', JNumber 500000), (''type'', JString ''CREDIT'')]"

definition complete_prefix :: string where
  \<open>complete_prefix =
     ''[{"date":"2024-01-01","description":"Salary","amount":500000,"type":"CREDIT"''\<close>

definition dropped_fragment :: string where
  \<open>dropped_fragment = '',{"date":"2024-01-02","desc''\<close>

definition unrepairable_response :: string where
  \<open>unrepairable_response = ''[{"date":"2024-01-01","description":"Refund {partial} to acc''\<close>

definition fenced_empty :: string where
  "fenced_empty = ''```json [] ```''"

definition big_payload :: string where
  "big_payload = replicate 13981014 (CHR ''A'')"

text \<open>\<open>answers_empty r\<close>: the provider call returned, and \<open>!response.text\<close> holds.\<close>

definition answers_empty :: "response \<Rightarrow> bool" where
  "answers_empty r = (case r of Throws _ \<Rightarrow> False | Text t \<Rightarrow> falsy t)"

text \<open>What the proofs about the band loop assume of a band: a rate and a width that are not negative.\<close>

definition band_ok :: "band \<Rightarrow> bool" where
  "band_ok b = (0 \<le> rate b \<and> (case limit b of Finite l \<Rightarrow> 0 \<le> l | Infinity \<Rightarrow> True))"

section \<open>Properties of the band loop\<close>

lemma Math_min_nonneg: "0 < r \<Longrightarrow> band_ok b \<Longrightarrow> 0 \<le> Math_min r (limit b)"
  by (cases "limit b") (auto simp: band_ok_def)

lemma Math_min_le: "Math_min r l \<le> r"
  by (cases l) auto

lemma Math_min_mono: "r1 \<le> r2 \<Longrightarrow> Math_min r1 l \<le> Math_min r2 l"
  by (cases l) auto

lemma Math_min_rest_mono: "r1 \<le> r2 \<Longrightarrow> r1 - Math_min r1 l \<le> r2 - Math_min r2 l"
  by (cases l) auto

text \<open>What has been taxed and what remains always add up to the same amount.\<close>

lemma band_loop_conserves:
  "sum_list (taxed (band_loop bs s)) + remaining (band_loop bs s) = sum_list (taxed s) + remaining s"
  by (induction bs arbitrary: s) (auto simp: Let_def)

text \<open>A last band without limit takes whatever remains.\<close>

lemma band_loop_exhausts:
  "0 \<le> remaining s \<Longrightarrow> bs \<noteq> [] \<Longrightarrow> limit (last bs) = Infinity \<Longrightarrow>
     remaining (band_loop bs s) = 0"
proof (induction bs arbitrary: s)
  case Nil
  then show ?case by simp
next
  case (Cons b bs)
  show ?case
  proof (cases "remaining s \<le> 0")
    case True
    with Cons.prems show ?thesis by simp
  next
    case False
    let ?s' = "\<lparr>tax = tax s + Math_min (remaining s) (limit b) * rate b,
              remaining = remaining s - Math_min (remaining s) (limit b),
              taxed = taxed s @ [Math_min (remaining s) (limit b)]\<rparr>"
    have step: "band_loop (b # bs) s = band_loop bs ?s'"
      using False by (simp add: Let_def)
    have nonneg: "0 \<le> remaining ?s'"
      using Math_min_le [of "remaining s" "limit b"] by simp
    show ?thesis
    proof (cases "bs = []")
      case True
      with Cons.prems have "limit b = Infinity" by simp
      with True step show ?thesis by simp
    next
      case False
      with Cons.prems have "limit (last bs) = Infinity" by simp
      with Cons.IH [OF nonneg False] step show ?thesis by simp
    qed
  qed
qed

text \<open>The tax is the sum, over the iterations that ran, of the amount taxed times the band's rate.\<close>

lemma band_loop_tax_sum:
  "\<exists>as. taxed (band_loop bs s) = taxed s @ as \<and>
        tax (band_loop bs s) = tax s + (\<Sum>(a, b)\<leftarrow>zip as bs. a * rate b)"
proof (induction bs arbitrary: s)
  case Nil
  then show ?case by simp
next
  case (Cons b bs)
  show ?case
  proof (cases "remaining s \<le> 0")
    case True
    then show ?thesis by simp
  next
    case False
    let ?a = "Math_min (remaining s) (limit b)"
    let ?s' = "\<lparr>tax = tax s + ?a * rate b, remaining = remaining s - ?a,
              taxed = taxed s @ [?a]\<rparr>"
    have step: "band_loop (b # bs) s = band_loop bs ?s'"
      using False by (simp add: Let_def)
    from Cons.IH [of ?s'] obtain as where
      as: "taxed (band_loop bs ?s') = taxed ?s' @ as"
          "tax (band_loop bs ?s') = tax ?s' + (\<Sum>(a, b)\<leftarrow>zip as bs. a * rate b)"
      by blast
    have "taxed (band_loop (b # bs) s) = taxed s @ (?a # as)"
      using as(1) step by simp
    moreover have "tax (band_loop (b # bs) s) =
        tax s + (\<Sum>(a, b)\<leftarrow>zip (?a # as) (b # bs). a * rate b)"
      using as(2) step by simp
    ultimately show ?thesis by blast
  qed
qed

lemma band_loop_tax_le:
  "\<forall>b\<in>set bs. band_ok b \<Longrightarrow> tax s \<le> tax (band_loop bs s)"
proof (induction bs arbitrary: s)
  case Nil
  then show ?case by simp
next
  case (Cons b bs)
  show ?case
  proof (cases "remaining s \<le> 0")
    case True
    then show ?thesis by simp
  next
    case False
    let ?a = "Math_min (remaining s) (limit b)"
    let ?s' = "\<lparr>tax = tax s + ?a * rate b, remaining = remaining s - ?a,
              taxed = taxed s @ [?a]\<rparr>"
    have step: "band_loop (b # bs) s = band_loop bs ?s'"
      using False by (simp add: Let_def)
    have ok: "band_ok b" and oks: "\<forall>b\<in>set bs. band_ok b"
      using Cons.prems by simp_all
    have "0 \<le> ?a" using False ok by (simp add: Math_min_nonneg)
    moreover have "0 \<le> rate b" using ok by (simp add: band_ok_def)
    ultimately have "0 \<le> ?a * rate b" by simp
    then have "tax s \<le> tax ?s'" by simp
    also have "\<dots> \<le> tax (band_loop bs ?s')" by (rule Cons.IH [OF oks])
    finally show ?thesis using step by simp
  qed
qed

text \<open>More to tax and more tax so far give more tax in the end.\<close>

lemma band_loop_tax_mono:
  "\<forall>b\<in>set bs. band_ok b \<Longrightarrow> tax s1 \<le> tax s2 \<Longrightarrow> remaining s1 \<le> remaining s2 \<Longrightarrow>
     tax (band_loop bs s1) \<le> tax (band_loop bs s2)"
proof (induction bs arbitrary: s1 s2)
  case Nil
  then show ?case by simp
next
  case (Cons b bs)
  have ok: "band_ok b" and oks: "\<forall>b\<in>set bs. band_ok b"
    using Cons.prems(1) by simp_all
  have rate: "0 \<le> rate b" using ok by (simp add: band_ok_def)
  let ?a1 = "Math_min (remaining s1) (limit b)"
  let ?a2 = "Math_min (remaining s2) (limit b)"
  let ?s1 = "\<lparr>tax = tax s1 + ?a1 * rate b, remaining = remaining s1 - ?a1,
              taxed = taxed s1 @ [?a1]\<rparr>"
  let ?s2 = "\<lparr>tax = tax s2 + ?a2 * rate b, remaining = remaining s2 - ?a2,
              taxed = taxed s2 @ [?a2]\<rparr>"
  show ?case
  proof (cases "remaining s1 \<le> 0")
    case True
    then have "tax (band_loop (b # bs) s1) = tax s1" by simp
    also have "\<dots> \<le> tax s2" by (rule Cons.prems(2))
    also have "\<dots> \<le> tax (band_loop (b # bs) s2)"
      by (rule band_loop_tax_le [OF Cons.prems(1)])
    finally show ?thesis .
  next
    case False
    then have pos2: "\<not> remaining s2 \<le> 0" using Cons.prems(3) by simp
    have step1: "band_loop (b # bs) s1 = band_loop bs ?s1"
      using False by (simp add: Let_def)
    have step2: "band_loop (b # bs) s2 = band_loop bs ?s2"
      using pos2 by (simp add: Let_def)
    have "?a1 * rate b \<le> ?a2 * rate b"
      using Math_min_mono [OF Cons.prems(3)] rate by (simp add: mult_right_mono)
    then have t: "tax ?s1 \<le> tax ?s2" using Cons.prems(2) by simp
    have r: "remaining ?s1 \<le> remaining ?s2"
      using Math_min_rest_mono [OF Cons.prems(3)] by simp
    show ?thesis using Cons.IH [OF oks t r] step1 step2 by simp
  qed
qed

lemma bands_ok: "\<forall>b\<in>set bands. band_ok b"
  by (simp add: bands_def band_ok_def)

lemma bands_last: "bands \<noteq> []" "limit (last bands) = Infinity"
  by (simp_all add: bands_def)

lemma taxableIncome_nonneg: "0 \<le> taxableIncome (calculateNigerianPIT g)"
  by (simp add: calculateNigerianPIT_def Let_def)

lemma taxableIncome_mono:
  "g1 \<le> g2 \<Longrightarrow> taxableIncome (calculateNigerianPIT g1) \<le> taxableIncome (calculateNigerianPIT g2)"
  by (simp add: calculateNigerianPIT_def Let_def max_def)

lemma totalTax_run_bands:
  "totalTax (calculateNigerianPIT g) = tax (run_bands (taxableIncome (calculateNigerianPIT g)))"
  by (simp add: calculateNigerianPIT_def Let_def)

lemma run_bands_mono: "t1 \<le> t2 \<Longrightarrow> tax (run_bands t1) \<le> tax (run_bands t2)"
  unfolding run_bands_def by (rule band_loop_tax_mono [OF bands_ok]) simp_all

lemma run_bands_nonneg: "0 \<le> tax (run_bands t)"
  using band_loop_tax_le [OF bands_ok, of "\<lparr>tax = 0, remaining = t, taxed = []\<rparr>"]
  by (simp add: run_bands_def)

lemma run_bands_remaining: "0 \<le> t \<Longrightarrow> remaining (run_bands t) = 0"
  unfolding run_bands_def by (rule band_loop_exhausts [OF _ bands_last]) simp

lemma run_bands_sum: "0 \<le> t \<Longrightarrow> sum_list (taxed (run_bands t)) = t"
  using band_loop_conserves [of bands "\<lparr>tax = 0, remaining = t, taxed = []\<rparr>"]
    run_bands_remaining [of t]
  by (simp add: run_bands_def)

lemma run_bands_tax: "tax (run_bands t) = (\<Sum>(a, b)\<leftarrow>zip (taxed (run_bands t)) bands. a * rate b)"
  using band_loop_tax_sum [of bands "\<lparr>tax = 0, remaining = t, taxed = []\<rparr>"]
  by (auto simp: run_bands_def)

section \<open>The tax engine: the claims\<close>

text \<open>
  Claim C1. For every gross income that is not negative, the consolidated relief returned is
  the higher of 200000 and 1 percent of the gross income, plus 20 percent of the gross
  income, and the taxable income returned is the gross income less that relief, or zero when
  the relief is the larger.
\<close>

theorem relief_and_taxable:
  "0 \<le> g \<Longrightarrow>
     consolidatedRelief (calculateNigerianPIT g) = max 200000 (0.01 * g) + 0.20 * g \<and>
     taxableIncome (calculateNigerianPIT g) = max 0 (g - consolidatedRelief (calculateNigerianPIT g))"
  by (simp add: calculateNigerianPIT_def Let_def mult.commute)

theorem relief_and_taxable_witness:
  "(0::real) \<le> 1000000 \<and>
   consolidatedRelief (calculateNigerianPIT 1000000) = 400000 \<and>
   taxableIncome (calculateNigerianPIT 1000000) = 600000"
  using relief_and_taxable [of 1000000] by simp

text \<open>
  Claim C2. For the taxable income of any gross income, the amounts taxed by the iterations
  of the band loop add up to the taxable income and nothing remains after the loop; the
  total tax returned is the tax of that loop, which is the sum of each amount times the rate
  of its band. A gross income of 625000 has a taxable income of exactly 300000, the width of
  the first band, and the loop then runs one iteration only, which taxes 300000.
\<close>

theorem bands_cover_taxable:
  "sum_list (taxed (run_bands (taxableIncome (calculateNigerianPIT g)))) =
     taxableIncome (calculateNigerianPIT g) \<and>
   remaining (run_bands (taxableIncome (calculateNigerianPIT g))) = 0 \<and>
   totalTax (calculateNigerianPIT g) = tax (run_bands (taxableIncome (calculateNigerianPIT g))) \<and>
   tax (run_bands (taxableIncome (calculateNigerianPIT g))) =
     (\<Sum>(a, b)\<leftarrow>zip (taxed (run_bands (taxableIncome (calculateNigerianPIT g)))) bands. a * rate b) \<and>
   taxableIncome (calculateNigerianPIT 625000) = 300000 \<and>
   taxed (run_bands 300000) = [300000]"
proof -
  have "taxableIncome (calculateNigerianPIT 625000) = 300000"
    by (simp add: calculateNigerianPIT_def Let_def)
  moreover have "taxed (run_bands 300000) = [300000]"
    by (simp add: run_bands_def bands_def Let_def)
  ultimately show ?thesis
    using run_bands_sum [OF taxableIncome_nonneg [of g]]
      run_bands_remaining [OF taxableIncome_nonneg [of g]]
      totalTax_run_bands [of g] run_bands_tax [of "taxableIncome (calculateNigerianPIT g)"]
    by simp
qed

text \<open>
  Claim C3. For every gross income that is not negative the total tax is not negative, and
  the total tax does not decrease when the gross income grows.
\<close>

theorem totalTax_nonneg_mono:
  "(0 \<le> g \<longrightarrow> 0 \<le> totalTax (calculateNigerianPIT g)) \<and>
   (0 \<le> g1 \<and> g1 \<le> g2 \<longrightarrow>
      totalTax (calculateNigerianPIT g1) \<le> totalTax (calculateNigerianPIT g2))"
  by (simp add: totalTax_run_bands run_bands_nonneg run_bands_mono taxableIncome_mono)

theorem totalTax_nonneg_mono_witness:
  "(0::real) \<le> 1000000 \<and> (1000000::real) \<le> 2000000 \<and>
   0 \<le> totalTax (calculateNigerianPIT 1000000) \<and>
   totalTax (calculateNigerianPIT 1000000) \<le> totalTax (calculateNigerianPIT 2000000)"
  using totalTax_nonneg_mono [of 1000000 1000000 2000000] by simp

text \<open>
  Claim C4. For a gross income of 1000000 the relief is 400000, the taxable income 600000,
  the total tax 54000 and the effective rate 5.4.
\<close>

theorem pit_of_one_million:
  "consolidatedRelief (calculateNigerianPIT 1000000) = 400000 \<and>
   taxableIncome (calculateNigerianPIT 1000000) = 600000 \<and>
   totalTax (calculateNigerianPIT 1000000) = 54000 \<and>
   effectiveRate (calculateNigerianPIT 1000000) = 5.4"
  by (simp add: calculateNigerianPIT_def run_bands_def bands_def Let_def)

text \<open>
  Claim C5. For a gross income of 0 the total tax and the effective rate are 0, and the
  effective rate is computed without a division: the guard leaves no divisor at 0, and no
  gross income makes the expression divide by zero.
\<close>

theorem pit_of_zero:
  "totalTax (calculateNigerianPIT 0) = 0 \<and>
   effectiveRate (calculateNigerianPIT 0) = 0 \<and>
   effectiveRate_divisors 0 = [] \<and>
   0 \<notin> set (effectiveRate_divisors g)"
  by (simp add: calculateNigerianPIT_def run_bands_def bands_def Let_def effectiveRate_divisors_def)

text \<open>
  Claim C10. The function returns a breakdown for every real number, and for every negative
  gross income the taxable income, the total tax and the effective rate are all 0.
\<close>

theorem pit_of_negative:
  "g < 0 \<Longrightarrow>
     taxableIncome (calculateNigerianPIT g) = 0 \<and>
     totalTax (calculateNigerianPIT g) = 0 \<and>
     effectiveRate (calculateNigerianPIT g) = 0"
  by (simp add: calculateNigerianPIT_def run_bands_def bands_def Let_def max_def)

theorem pit_of_negative_witness:
  "(- 5000 :: real) < 0 \<and>
   taxableIncome (calculateNigerianPIT (- 5000)) = 0 \<and>
   totalTax (calculateNigerianPIT (- 5000)) = 0 \<and>
   effectiveRate (calculateNigerianPIT (- 5000)) = 0"
  using pit_of_negative [of "- 5000"] by simp

section \<open>Properties of the string functions\<close>

lemma startsWith_iff: "startsWith s p \<longleftrightarrow> (\<exists>suf. s = p @ suf)"
  by (induction s p rule: startsWith.induct) auto

lemma str_includes_iff: "str_includes s p \<longleftrightarrow> (\<exists>pre suf. s = pre @ p @ suf)"
proof (induction s)
  case Nil
  then show ?case by (simp add: startsWith_iff)
next
  case (Cons c cs)
  show ?case
  proof
    assume "str_includes (c # cs) p"
    then consider "startsWith (c # cs) p" | "str_includes cs p" by auto
    then show "\<exists>pre suf. c # cs = pre @ p @ suf"
    proof cases
      case 1
      then obtain suf where "c # cs = p @ suf" by (auto simp: startsWith_iff)
      then have "c # cs = [] @ p @ suf" by simp
      then show ?thesis by blast
    next
      case 2
      with Cons.IH obtain pre suf where "cs = pre @ p @ suf" by blast
      then have "c # cs = (c # pre) @ p @ suf" by simp
      then show ?thesis by blast
    qed
  next
    assume "\<exists>pre suf. c # cs = pre @ p @ suf"
    then obtain pre suf where eq: "c # cs = pre @ p @ suf" by blast
    show "str_includes (c # cs) p"
    proof (cases pre)
      case Nil
      with eq have "startsWith (c # cs) p" by (auto simp: startsWith_iff)
      then show ?thesis by simp
    next
      case (Cons x pre')
      with eq have "cs = pre' @ p @ suf" by simp
      with Cons.IH have "str_includes cs p" by blast
      then show ?thesis by simp
    qed
  qed
qed

lemma toLowerCase_append: "toLowerCase (a @ b) = toLowerCase a @ toLowerCase b"
  by (simp add: toLowerCase_def)

lemma toLowerCase_429: "toLowerCase ''429'' = ''429''"
  by (simp add: toLowerCase_def toLowerCase_unit_def)

lemma includes_429_lower:
  assumes "str_includes m ''429''"
  shows "str_includes (toLowerCase m) ''429''"
proof -
  from assms obtain pre suf where "m = pre @ ''429'' @ suf"
    unfolding str_includes_iff by blast
  then have "toLowerCase m = toLowerCase pre @ ''429'' @ toLowerCase suf"
    by (simp only: toLowerCase_append toLowerCase_429)
  then show ?thesis unfolding str_includes_iff by blast
qed

lemma lastIndexOf_from_absent:
  "c \<notin> set s \<Longrightarrow> lastIndexOf_from s c i found = found"
  by (induction s arbitrary: i found) auto

lemma lastIndexOf_from_last:
  "c \<notin> set suf \<Longrightarrow> lastIndexOf_from (pre @ c # suf) c i found = i + int (length pre)"
  by (induction pre arbitrary: i found) (auto simp: lastIndexOf_from_absent)

lemma lastIndexOf_last:
  "c \<notin> set suf \<Longrightarrow> lastIndexOf (pre @ c # suf) c = int (length pre)"
  by (simp add: lastIndexOf_def lastIndexOf_from_last)

lemma lastIndexOf_absent: "c \<notin> set s \<Longrightarrow> lastIndexOf s c = - 1"
  by (simp add: lastIndexOf_def lastIndexOf_from_absent)

lemma split_no_sep: "sep \<notin> set s \<Longrightarrow> split sep s = [s]"
  by (induction s) auto

lemma cleanBase64_of_no_comma: "CHR '','' \<notin> set s \<Longrightarrow> cleanBase64_of s = s"
  by (simp add: cleanBase64_of_def split_no_sep)

lemma big_payload_size: "10 < approximateSizeInMB (cleanBase64_of big_payload)"
proof -
  have "cleanBase64_of big_payload = big_payload"
    by (rule cleanBase64_of_no_comma) (simp add: big_payload_def)
  then show ?thesis by (simp add: approximateSizeInMB_def big_payload_def)
qed

lemma repair_truncated:
  assumes "startsWith (strip_fences t) ''[''" and "\<not> endsWith (strip_fences t) '']''"
    and "strip_fences t = pre @ CHR ''}'' # suf" and "CHR ''}'' \<notin> set suf"
  shows "cleanJson_A t = pre @ ''}]''"
proof -
  have "lastIndexOf (strip_fences t) (CHR ''}'') = int (length pre)"
    using assms(3,4) by (simp add: lastIndexOf_last)
  moreover have "substring0 (pre @ CHR ''}'' # suf) (int (length pre) + 1) = pre @ ''}''"
    by (simp add: substring0_def nat_add_distrib)
  ultimately show ?thesis
    using assms by (simp add: cleanJson_A_def Let_def)
qed

section \<open>Evaluating the parser\<close>

text \<open>The fuel of the parser is a numeral in a concrete run; these equations count it down.\<close>

lemma parse_value_numeral:
  "parse_value (numeral k) s =
     (let t = dropWhile json_ws s; u = dropWhile json_ws (tl t)
      in if startsWith t ''['' then
           (if startsWith u '']'' then Some (JArray [], tl u) else parse_elements (pred_numeral k) (tl t) [])
         else if startsWith t ''{'' then
           (if startsWith u ''}'' then Some (JObject [], tl u) else parse_members (pred_numeral k) (tl t) [])
         else parse_scalar t)"
  unfolding numeral_eq_Suc by (rule parse_value.simps)

lemma parse_elements_numeral:
  "parse_elements (numeral k) s acc =
     (case parse_value (pred_numeral k) s of
        None \<Rightarrow> None
      | Some vr \<Rightarrow>
          (let t = dropWhile json_ws (snd vr)
           in if startsWith t '','' then parse_elements (pred_numeral k) (tl t) (acc @ [fst vr])
              else if startsWith t '']'' then Some (JArray (acc @ [fst vr]), tl t)
              else None))"
  unfolding numeral_eq_Suc by (rule parse_elements.simps)

lemma parse_members_numeral:
  "parse_members (numeral k) s acc =
     (case parse_key s of
        None \<Rightarrow> None
      | Some kr \<Rightarrow>
          (case parse_value (pred_numeral k) (snd kr) of
             None \<Rightarrow> None
           | Some vr \<Rightarrow>
               (let t = dropWhile json_ws (snd vr)
                in if startsWith t '','' then parse_members (pred_numeral k) (tl t) (acc @ [(fst kr, fst vr)])
                   else if startsWith t ''}'' then Some (JObject (acc @ [(fst kr, fst vr)]), tl t)
                   else None)))"
  unfolding numeral_eq_Suc by (rule parse_members.simps)

lemmas json_eval = parse_value_numeral parse_elements_numeral parse_members_numeral
  parse_json_text_def Let_def json_ws_def parse_scalar_def parse_key_def
  parse_number_def parse_fraction_def parse_exponent_def is_digit_def digits_val_def scale10_def cons_char_def

section \<open>The fuel of the parser\<close>

text \<open>
  Every parser that succeeds leaves a text shorter than the one it was given. With that, fuel
  of twice the length of the text plus two is never used up: whatever the parser returns with
  that much fuel, a failure included, it returns with any larger amount.
\<close>

lemma startsWith_nonempty: "startsWith t (p # ps) \<Longrightarrow> t \<noteq> []"
  by (cases t) auto

lemma startsWith_length: "startsWith t p \<Longrightarrow> length p \<le> length t"
  by (auto simp: startsWith_iff)

lemma length_dropWhile_takeWhile:
  "takeWhile P xs \<noteq> [] \<Longrightarrow> length (dropWhile P xs) < length xs"
  by (cases xs) (auto simp: le_imp_less_Suc length_dropWhile_le split: if_splits)

lemma cons_char_Some:
  "cons_char c res = Some (str, r) \<Longrightarrow> \<exists>str'. res = Some (str', r)"
  by (auto simp: cons_char_def split: option.splits)

lemma parse_string_shorter:
  "parse_string s = Some (str, r) \<Longrightarrow> length r < length s"
proof (induction s arbitrary: str rule: parse_string.induct)
  case 1
  then show ?case by simp
next
  case (2 c cs)
  show ?case
  proof (cases "(of_char c :: nat) = 34")
    case True
    with "2.prems" show ?thesis by simp
  next
    case not_quote: False
    show ?thesis
    proof (cases "(of_char c :: nat) = 92")
      case True
      note bs = this
      show ?thesis
      proof (cases cs)
        case Nil
        with "2.prems" not_quote bs show ?thesis by simp
      next
        case (Cons e r0)
        show ?thesis
        proof (cases "(of_char e :: nat) = 117")
          case True
          from "2.prems" not_quote bs Cons True obtain h1 h2 h3 h4 r' n where
            r0: "r0 = h1 # h2 # h3 # h4 # r'" and hx: "hex4 h1 h2 h3 h4 = Some n" and n: "n < 256"
            and res: "cons_char (char_of n) (parse_string r') = Some (str, r)"
            by (auto split: list.splits option.splits if_splits)
          from cons_char_Some [OF res] obtain str' where "parse_string r' = Some (str', r)" ..
          from "2.IH"(1) [OF not_quote bs Cons True r0 refl refl refl hx n this]
          have "length r < length r'" .
          with Cons r0 show ?thesis by simp
        next
          case False
          from "2.prems" not_quote bs Cons False obtain ch where
            ue: "unescape e = Some ch" and res: "cons_char ch (parse_string r0) = Some (str, r)"
            by (auto split: option.splits)
          from cons_char_Some [OF res] obtain str' where "parse_string r0 = Some (str', r)" ..
          from "2.IH"(2) [OF not_quote bs Cons False ue this]
          have "length r < length r0" .
          with Cons show ?thesis by simp
        qed
      qed
    next
      case False
      from "2.prems" not_quote False have ctl: "\<not> (of_char c :: nat) < 32"
        and res: "cons_char c (parse_string cs) = Some (str, r)"
        by (auto split: if_splits)
      from cons_char_Some [OF res] obtain str' where "parse_string cs = Some (str', r)" ..
      from "2.IH"(3) [OF not_quote False ctl this] show ?thesis by simp
    qed
  qed
qed

lemma parse_fraction_shorter: "parse_fraction s = Some (f, r) \<Longrightarrow> length r \<le> length s"
  by (auto simp: parse_fraction_def Let_def length_dropWhile_le le_SucI
      split: list.splits if_splits)

lemma parse_exponent_shorter: "parse_exponent s = Some (e, r) \<Longrightarrow> length r \<le> length s"
proof (cases s)
  case Nil
  assume "parse_exponent s = Some (e, r)"
  with Nil show ?thesis by (simp add: parse_exponent_def)
next
  case (Cons c cs)
  assume p: "parse_exponent s = Some (e, r)"
  show ?thesis
  proof (cases "c = CHR ''e'' \<or> c = CHR ''E''")
    case False
    with p Cons show ?thesis by (auto simp: parse_exponent_def)
  next
    case True
    let ?ds = "if (case cs of [] \<Rightarrow> False | x # _ \<Rightarrow> x = CHR ''-'' \<or> x = CHR ''+'') then tl cs else cs"
    from p Cons True have "r = dropWhile is_digit ?ds"
      by (auto simp: parse_exponent_def Let_def split: if_splits)
    moreover have "length (dropWhile is_digit ?ds) \<le> length ?ds"
      by (rule length_dropWhile_le)
    moreover have "length ?ds \<le> length cs" by simp
    ultimately show ?thesis using Cons by simp
  qed
qed

lemma parse_number_shorter:
  assumes "parse_number s = Some (x, r)"
  shows "length r < length s"
proof -
  let ?s1 = "if (case s of [] \<Rightarrow> False | c # _ \<Rightarrow> c = CHR ''-'') then tl s else s"
  from assms have ds: "takeWhile is_digit ?s1 \<noteq> []"
    by (auto simp: parse_number_def Let_def split: if_splits)
  from assms obtain f s2 e where
    fr: "parse_fraction (dropWhile is_digit ?s1) = Some (f, s2)"
    and ex: "parse_exponent s2 = Some (e, r)"
    by (auto simp: parse_number_def Let_def split: if_splits option.splits)
  have "length r \<le> length s2" by (rule parse_exponent_shorter [OF ex])
  also have "\<dots> \<le> length (dropWhile is_digit ?s1)" by (rule parse_fraction_shorter [OF fr])
  also have "\<dots> < length ?s1" by (rule length_dropWhile_takeWhile [OF ds])
  also have "\<dots> \<le> length s" by simp
  finally show ?thesis .
qed

lemma parse_scalar_shorter:
  assumes "parse_scalar t = Some (v, r)"
  shows "length r < length t"
proof (cases "startsWith t [CHR 0x22]")
  case True
  with assms obtain str where "parse_string (tl t) = Some (str, r)"
    by (auto simp: parse_scalar_def split: option.splits)
  then have "length r < length (tl t)" by (rule parse_string_shorter)
  then show ?thesis by simp
next
  case False
  note nq = this
  show ?thesis
  proof (cases "startsWith t ''true'' \<or> startsWith t ''false'' \<or> startsWith t ''null''")
    case True
    then have "4 \<le> length t" using startsWith_length by fastforce
    moreover from True nq assms have "r = drop 4 t \<or> r = drop 5 t"
      by (auto simp: parse_scalar_def split: if_splits)
    ultimately show ?thesis by auto
  next
    case False
    with nq assms obtain x where "parse_number t = Some (x, r)"
      by (auto simp: parse_scalar_def split: option.splits)
    then show ?thesis by (rule parse_number_shorter)
  qed
qed

lemma parse_key_shorter:
  assumes "parse_key s = Some (k, r)"
  shows "length r < length s"
proof -
  let ?t = "dropWhile json_ws s"
  from assms have q: "startsWith ?t [CHR 0x22]"
    by (auto simp: parse_key_def Let_def split: if_splits)
  with assms obtain r1 where ps: "parse_string (tl ?t) = Some (k, r1)"
    and r: "r = tl (dropWhile json_ws r1)"
    by (auto simp: parse_key_def Let_def split: option.splits if_splits)
  have "length r \<le> length (dropWhile json_ws r1)" using r by simp
  also have "\<dots> \<le> length r1" by (rule length_dropWhile_le)
  also have "\<dots> < length (tl ?t)" by (rule parse_string_shorter [OF ps])
  also have "\<dots> \<le> length ?t" by simp
  also have "\<dots> \<le> length s" by (rule length_dropWhile_le)
  finally show ?thesis .
qed

lemma tl_dropWhile_shorter:
  "startsWith (dropWhile P s) (p # ps) \<Longrightarrow> length (tl (dropWhile P s)) < length s"
proof -
  assume "startsWith (dropWhile P s) (p # ps)"
  then have "dropWhile P s \<noteq> []" by (rule startsWith_nonempty)
  then have "length (tl (dropWhile P s)) < length (dropWhile P s)" by simp
  also have "\<dots> \<le> length s" by (rule length_dropWhile_le)
  finally show ?thesis .
qed

lemma tl_dropWhile_le: "length (tl (dropWhile P s)) \<le> length s"
proof -
  have "length (tl (dropWhile P s)) \<le> length (dropWhile P s)" by simp
  also have "\<dots> \<le> length s" by (rule length_dropWhile_le)
  finally show ?thesis .
qed

lemma parse_shorter_all:
  "(\<forall>s v r. parse_value n s = Some (v, r) \<longrightarrow> length r < length s) \<and>
   (\<forall>s acc v r. parse_elements n s acc = Some (v, r) \<longrightarrow> length r < length s) \<and>
   (\<forall>s ms v r. parse_members n s ms = Some (v, r) \<longrightarrow> length r < length s)"
proof (induction n)
  case 0
  show ?case by simp
next
  case (Suc n)
  then have IHe: "\<And>s acc v r. parse_elements n s acc = Some (v, r) \<Longrightarrow> length r < length s"
    and IHm: "\<And>s ms v r. parse_members n s ms = Some (v, r) \<Longrightarrow> length r < length s"
    and IHv: "\<And>s v r. parse_value n s = Some (v, r) \<Longrightarrow> length r < length s"
    by blast+
  have V: "length r < length s" if p: "parse_value (Suc n) s = Some (v, r)" for s v r
  proof -
    let ?t = "dropWhile json_ws s"
    let ?u = "dropWhile json_ws (tl ?t)"
    consider (arr) "startsWith ?t ''[''"
      | (obj) "\<not> startsWith ?t ''[''" "startsWith ?t ''{''"
      | (scalar) "\<not> startsWith ?t ''[''" "\<not> startsWith ?t ''{''"
      by blast
    then show ?thesis
    proof cases
      case arr
      then have tl: "length (tl ?t) < length s" by (rule tl_dropWhile_shorter)
      show ?thesis
      proof (cases "startsWith ?u '']''")
        case True
        with p arr have "r = tl ?u" by (simp add: Let_def)
        then have "length r \<le> length (tl ?t)" by (simp only: tl_dropWhile_le)
        with tl show ?thesis by simp
      next
        case False
        with p arr have "parse_elements n (tl ?t) [] = Some (v, r)" by (simp add: Let_def)
        from IHe [OF this] tl show ?thesis by simp
      qed
    next
      case obj
      from obj(2) have tl: "length (tl ?t) < length s" by (rule tl_dropWhile_shorter)
      show ?thesis
      proof (cases "startsWith ?u ''}''")
        case True
        with p obj have "r = tl ?u" by (simp add: Let_def)
        then have "length r \<le> length (tl ?t)" by (simp only: tl_dropWhile_le)
        with tl show ?thesis by simp
      next
        case False
        with p obj have "parse_members n (tl ?t) [] = Some (v, r)" by (simp add: Let_def)
        from IHm [OF this] tl show ?thesis by simp
      qed
    next
      case scalar
      with p have "parse_scalar ?t = Some (v, r)" by (simp add: Let_def)
      then have "length r < length ?t" by (rule parse_scalar_shorter)
      also have "\<dots> \<le> length s" by (rule length_dropWhile_le)
      finally show ?thesis .
    qed
  qed
  have E: "length r < length s" if p: "parse_elements (Suc n) s acc = Some (v, r)" for s acc v r
  proof -
    from p obtain v1 r1 where v1: "parse_value n s = Some (v1, r1)"
      by (auto split: option.splits)
    let ?t = "dropWhile json_ws r1"
    have r1: "length r1 < length s" by (rule IHv [OF v1])
    show ?thesis
    proof (cases "startsWith ?t '',''")
      case True
      with p v1 have "parse_elements n (tl ?t) (acc @ [v1]) = Some (v, r)" by (simp add: Let_def)
      from IHe [OF this] have "length r < length (tl ?t)" .
      also have "\<dots> \<le> length r1" by (rule tl_dropWhile_le)
      finally show ?thesis using r1 by simp
    next
      case False
      with p v1 have "r = tl ?t" by (auto simp: Let_def split: if_splits)
      then have "length r \<le> length r1" by (simp only: tl_dropWhile_le)
      with r1 show ?thesis by simp
    qed
  qed
  have M: "length r < length s" if p: "parse_members (Suc n) s ms = Some (v, r)" for s ms v r
  proof -
    from p obtain k r0 where k: "parse_key s = Some (k, r0)"
      by (auto split: option.splits)
    with p obtain v1 r1 where v1: "parse_value n r0 = Some (v1, r1)"
      by (auto split: option.splits)
    let ?t = "dropWhile json_ws r1"
    have "length r1 < length r0" by (rule IHv [OF v1])
    also have "\<dots> < length s" by (rule parse_key_shorter [OF k])
    finally have r1: "length r1 < length s" .
    show ?thesis
    proof (cases "startsWith ?t '',''")
      case True
      with p k v1 have "parse_members n (tl ?t) (ms @ [(k, v1)]) = Some (v, r)"
        by (simp add: Let_def)
      from IHm [OF this] have "length r < length (tl ?t)" .
      also have "\<dots> \<le> length r1" by (rule tl_dropWhile_le)
      finally show ?thesis using r1 by simp
    next
      case False
      with p k v1 have "r = tl ?t" by (auto simp: Let_def split: if_splits)
      then have "length r \<le> length r1" by (simp only: tl_dropWhile_le)
      with r1 show ?thesis by simp
    qed
  qed
  from V E M show ?case by blast
qed

lemma parse_value_shorter: "parse_value n s = Some (v, r) \<Longrightarrow> length r < length s"
  using parse_shorter_all [of n] by blast

text \<open>Past the bound, one more unit of fuel changes nothing.\<close>

lemma parse_fuel_step:
  "(\<forall>s. 2 * length s + 2 \<le> n \<longrightarrow> parse_value (Suc n) s = parse_value n s) \<and>
   (\<forall>s acc. 2 * length s + 3 \<le> n \<longrightarrow> parse_elements (Suc n) s acc = parse_elements n s acc) \<and>
   (\<forall>s ms. 2 * length s + 3 \<le> n \<longrightarrow> parse_members (Suc n) s ms = parse_members n s ms)"
proof (induction n)
  case 0
  show ?case by simp
next
  case (Suc n)
  then have IHv: "\<And>s. 2 * length s + 2 \<le> n \<Longrightarrow> parse_value (Suc n) s = parse_value n s"
    and IHe: "\<And>s acc. 2 * length s + 3 \<le> n \<Longrightarrow>
        parse_elements (Suc n) s acc = parse_elements n s acc"
    and IHm: "\<And>s ms. 2 * length s + 3 \<le> n \<Longrightarrow>
        parse_members (Suc n) s ms = parse_members n s ms"
    by blast+
  have V: "parse_value (Suc (Suc n)) s = parse_value (Suc n) s"
    if b: "2 * length s + 2 \<le> Suc n" for s
  proof -
    let ?t = "dropWhile json_ws s"
    have inner: "2 * length (tl ?t) + 3 \<le> n" if "startsWith ?t (p # ps)" for p ps
      using tl_dropWhile_shorter [OF that] b by simp
    have "parse_elements (Suc n) (tl ?t) [] = parse_elements n (tl ?t) []"
      if "startsWith ?t ''[''"
      by (rule IHe [OF inner [OF that]])
    moreover have "parse_members (Suc n) (tl ?t) [] = parse_members n (tl ?t) []"
      if "startsWith ?t ''{''"
      by (rule IHm [OF inner [OF that]])
    ultimately show ?thesis by (simp add: Let_def)
  qed
  have E: "parse_elements (Suc (Suc n)) s acc = parse_elements (Suc n) s acc"
    if b: "2 * length s + 3 \<le> Suc n" for s acc
  proof -
    have v: "parse_value (Suc n) s = parse_value n s"
      using b by (intro IHv) simp
    show ?thesis
    proof (cases "parse_value n s")
      case None
      with v show ?thesis by simp
    next
      case (Some vr)
      let ?t = "dropWhile json_ws (snd vr)"
      from Some have "parse_value n s = Some (fst vr, snd vr)" by simp
      then have "length (snd vr) < length s" by (rule parse_value_shorter)
      moreover have "length (tl ?t) \<le> length (snd vr)" by (rule tl_dropWhile_le)
      ultimately have "2 * length (tl ?t) + 3 \<le> n" using b by simp
      then have "parse_elements (Suc n) (tl ?t) (acc @ [fst vr]) =
          parse_elements n (tl ?t) (acc @ [fst vr])"
        by (rule IHe)
      with v Some show ?thesis by (simp add: Let_def)
    qed
  qed
  have M: "parse_members (Suc (Suc n)) s ms = parse_members (Suc n) s ms"
    if b: "2 * length s + 3 \<le> Suc n" for s ms
  proof (cases "parse_key s")
    case None
    then show ?thesis by simp
  next
    case (Some kr)
    then have "parse_key s = Some (fst kr, snd kr)" by simp
    then have kr: "length (snd kr) < length s" by (rule parse_key_shorter)
    then have v: "parse_value (Suc n) (snd kr) = parse_value n (snd kr)"
      using b by (intro IHv) simp
    show ?thesis
    proof (cases "parse_value n (snd kr)")
      case None
      with v Some show ?thesis by simp
    next
      case inner: (Some vr)
      let ?t = "dropWhile json_ws (snd vr)"
      from inner have "parse_value n (snd kr) = Some (fst vr, snd vr)" by simp
      then have "length (snd vr) < length (snd kr)" by (rule parse_value_shorter)
      moreover have "length (tl ?t) \<le> length (snd vr)" by (rule tl_dropWhile_le)
      ultimately have "2 * length (tl ?t) + 3 \<le> n" using b kr by simp
      then have "parse_members (Suc n) (tl ?t) (ms @ [(fst kr, fst vr)]) =
          parse_members n (tl ?t) (ms @ [(fst kr, fst vr)])"
        by (rule IHm)
      with v Some inner show ?thesis by (simp add: Let_def)
    qed
  qed
  from V E M show ?case by blast
qed

lemma parse_value_fuel:
  "2 * length s + 2 \<le> n \<Longrightarrow> parse_value n s = parse_value (2 * length s + 2) s"
proof (induction n)
  case 0
  then show ?case by simp
next
  case (Suc n)
  show ?case
  proof (cases "2 * length s + 2 \<le> n")
    case True
    with parse_fuel_step [of n] have "parse_value (Suc n) s = parse_value n s" by blast
    with Suc.IH [OF True] show ?thesis by simp
  next
    case False
    with Suc.prems have "Suc n = 2 * length s + 2" by simp
    then show ?thesis by simp
  qed
qed

lemma parse_json_text_fuel:
  "2 * length s + 2 \<le> n \<Longrightarrow>
     parse_json_text s =
       (case parse_value n s of
          None \<Rightarrow> None
        | Some (v, r) \<Rightarrow> if dropWhile json_ws r = [] then Some v else None)"
  by (simp add: parse_json_text_def parse_value_fuel [of s n])

section \<open>The steps of the pipeline\<close>

text \<open>One equation for each way through the body of the function, revision A first.\<close>

lemma A_no_key:
  "falsy (API_KEY P) \<Longrightarrow>
     extractTransactionsFromDocument_A P sent b m pr rc =
       (Inl ''System Configuration Error: API Key is missing.'', sent)"
  by (subst extractTransactionsFromDocument_A.simps) simp

lemma A_throws:
  "\<not> falsy (API_KEY P) \<Longrightarrow> generateContent P (length sent) (request_A b m pr) = Throws e \<Longrightarrow>
     extractTransactionsFromDocument_A P sent b m pr rc =
       (Inl (catch_A pr (modelName_A (cleanBase64_of b) pr) e), sent @ [request_A b m pr])"
  by (subst extractTransactionsFromDocument_A.simps) simp

lemma A_text:
  "\<not> falsy (API_KEY P) \<Longrightarrow> generateContent P (length sent) (request_A b m pr) = Text t \<Longrightarrow>
     \<not> falsy t \<Longrightarrow>
     extractTransactionsFromDocument_A P sent b m pr rc =
       (parse_A P pr (modelName_A (cleanBase64_of b) pr) (text_of t), sent @ [request_A b m pr])"
  by (subst extractTransactionsFromDocument_A.simps) simp

lemma A_retry:
  "\<not> falsy (API_KEY P) \<Longrightarrow> generateContent P (length sent) (request_A b m pr) = Text t \<Longrightarrow>
     falsy t \<Longrightarrow> rc < 1 \<Longrightarrow>
     extractTransactionsFromDocument_A P sent b m pr rc =
       extractTransactionsFromDocument_A P (sent @ [request_A b m pr]) b m pr (rc + 1)"
  by (subst extractTransactionsFromDocument_A.simps) simp

lemma A_give_up:
  "\<not> falsy (API_KEY P) \<Longrightarrow> generateContent P (length sent) (request_A b m pr) = Text t \<Longrightarrow>
     falsy t \<Longrightarrow> \<not> rc < 1 \<Longrightarrow>
     extractTransactionsFromDocument_A P sent b m pr rc =
       (Inr (JArray []), sent @ [request_A b m pr])"
  by (subst extractTransactionsFromDocument_A.simps) simp

lemma A_last_attempt_sent:
  "\<not> falsy (API_KEY P) \<Longrightarrow> \<not> rc < 1 \<Longrightarrow>
     snd (extractTransactionsFromDocument_A P sent b m pr rc) = sent @ [request_A b m pr]"
proof (cases "generateContent P (length sent) (request_A b m pr)")
  case (Throws e)
  assume "\<not> falsy (API_KEY P)"
  with Throws show ?thesis by (simp add: A_throws)
next
  case (Text t)
  assume "\<not> falsy (API_KEY P)" "\<not> rc < 1"
  with Text show ?thesis by (cases "falsy t") (simp_all add: A_text A_give_up)
qed

lemma A_sent:
  "\<not> falsy (API_KEY P) \<Longrightarrow>
     \<exists>k\<ge>1. snd (extractTransactionsFromDocument_A P sent b m pr rc) =
              sent @ replicate k (request_A b m pr)"
proof (induction P sent b m pr rc rule: extractTransactionsFromDocument_A.induct)
  case (1 P sent b m pr rc)
  let ?req = "request_A b m pr"
  show ?case
  proof (cases "generateContent P (length sent) ?req")
    case (Throws e)
    with "1.prems" have "snd (extractTransactionsFromDocument_A P sent b m pr rc) = sent @ replicate 1 ?req"
      by (simp add: A_throws)
    then show ?thesis by blast
  next
    case (Text t)
    show ?thesis
    proof (cases "falsy t \<and> rc < 1")
      case True
      from "1.IH" [OF "1.prems" Text] True "1.prems" obtain k where
        k: "1 \<le> k" "snd (extractTransactionsFromDocument_A P (sent @ [?req]) b m pr (rc + 1)) =
             (sent @ [?req]) @ replicate k ?req"
        by blast
      have "snd (extractTransactionsFromDocument_A P sent b m pr rc) = sent @ replicate (Suc k) ?req"
        using k(2) A_retry [OF "1.prems" Text] True by simp
      then show ?thesis by (intro exI [of _ "Suc k"]) simp
    next
      case False
      have "snd (extractTransactionsFromDocument_A P sent b m pr rc) = sent @ replicate 1 ?req"
      proof (cases "falsy t")
        case True
        with False "1.prems" Text show ?thesis by (simp add: A_give_up)
      next
        case False
        with "1.prems" Text show ?thesis by (simp add: A_text)
      qed
      then show ?thesis by blast
    qed
  qed
qed

lemma B_no_key:
  "falsy (API_KEY P) \<Longrightarrow>
     extractTransactionsFromDocument_B P sent b m pr rc =
       (Inl ''System Configuration Error: API Key is missing.'', sent)"
  by (subst extractTransactionsFromDocument_B.simps) simp

lemma B_throws:
  "\<not> falsy (API_KEY P) \<Longrightarrow> generateContent P (length sent) (request_B b m pr) = Throws e \<Longrightarrow>
     extractTransactionsFromDocument_B P sent b m pr rc =
       (Inl (catch_B pr e), sent @ [request_B b m pr])"
  by (subst extractTransactionsFromDocument_B.simps) simp

lemma B_text:
  "\<not> falsy (API_KEY P) \<Longrightarrow> generateContent P (length sent) (request_B b m pr) = Text t \<Longrightarrow>
     \<not> falsy t \<Longrightarrow>
     extractTransactionsFromDocument_B P sent b m pr rc =
       (parse_B P pr (text_of t), sent @ [request_B b m pr])"
  by (subst extractTransactionsFromDocument_B.simps) simp

lemma B_retry:
  "\<not> falsy (API_KEY P) \<Longrightarrow> generateContent P (length sent) (request_B b m pr) = Text t \<Longrightarrow>
     falsy t \<Longrightarrow> rc < 1 \<Longrightarrow>
     extractTransactionsFromDocument_B P sent b m pr rc =
       extractTransactionsFromDocument_B P (sent @ [request_B b m pr]) b m pr (rc + 1)"
  by (subst extractTransactionsFromDocument_B.simps) simp

lemma B_give_up:
  "\<not> falsy (API_KEY P) \<Longrightarrow> generateContent P (length sent) (request_B b m pr) = Text t \<Longrightarrow>
     falsy t \<Longrightarrow> \<not> rc < 1 \<Longrightarrow>
     extractTransactionsFromDocument_B P sent b m pr rc =
       (Inr (JArray []), sent @ [request_B b m pr])"
  by (subst extractTransactionsFromDocument_B.simps) simp

lemma B_last_attempt_sent:
  "\<not> falsy (API_KEY P) \<Longrightarrow> \<not> rc < 1 \<Longrightarrow>
     snd (extractTransactionsFromDocument_B P sent b m pr rc) = sent @ [request_B b m pr]"
proof (cases "generateContent P (length sent) (request_B b m pr)")
  case (Throws e)
  assume "\<not> falsy (API_KEY P)"
  with Throws show ?thesis by (simp add: B_throws)
next
  case (Text t)
  assume "\<not> falsy (API_KEY P)" "\<not> rc < 1"
  with Text show ?thesis by (cases "falsy t") (simp_all add: B_text B_give_up)
qed

lemma B_sent:
  "\<not> falsy (API_KEY P) \<Longrightarrow>
     \<exists>k\<ge>1. snd (extractTransactionsFromDocument_B P sent b m pr rc) =
              sent @ replicate k (request_B b m pr)"
proof (induction P sent b m pr rc rule: extractTransactionsFromDocument_B.induct)
  case (1 P sent b m pr rc)
  let ?req = "request_B b m pr"
  show ?case
  proof (cases "generateContent P (length sent) ?req")
    case (Throws e)
    with "1.prems" have "snd (extractTransactionsFromDocument_B P sent b m pr rc) = sent @ replicate 1 ?req"
      by (simp add: B_throws)
    then show ?thesis by blast
  next
    case (Text t)
    show ?thesis
    proof (cases "falsy t \<and> rc < 1")
      case True
      from "1.IH" [OF "1.prems" Text] True "1.prems" obtain k where
        k: "1 \<le> k" "snd (extractTransactionsFromDocument_B P (sent @ [?req]) b m pr (rc + 1)) =
             (sent @ [?req]) @ replicate k ?req"
        by blast
      have "snd (extractTransactionsFromDocument_B P sent b m pr rc) = sent @ replicate (Suc k) ?req"
        using k(2) B_retry [OF "1.prems" Text] True by simp
      then show ?thesis by (intro exI [of _ "Suc k"]) simp
    next
      case False
      have "snd (extractTransactionsFromDocument_B P sent b m pr rc) = sent @ replicate 1 ?req"
      proof (cases "falsy t")
        case True
        with False "1.prems" Text show ?thesis by (simp add: B_give_up)
      next
        case False
        with "1.prems" Text show ?thesis by (simp add: B_text)
      qed
      then show ?thesis by blast
    qed
  qed
qed

lemma A_first_empty_sent:
  assumes key: "\<not> falsy (API_KEY P)"
    and empty: "answers_empty (generateContent P 0 (request_A b m pr))"
  shows "snd (extract_A P b m pr) = [request_A b m pr, request_A b m pr]"
proof -
  from empty obtain t where t: "generateContent P 0 (request_A b m pr) = Text t" "falsy t"
    by (auto simp: answers_empty_def split: response.splits)
  have "extract_A P b m pr =
      extractTransactionsFromDocument_A P [request_A b m pr] b m pr 1"
    using A_retry [OF key, of "[]" b m pr t 0] t by (simp add: extract_A_def)
  then show ?thesis
    using A_last_attempt_sent [OF key, of 1 "[request_A b m pr]" b m pr] by simp
qed

lemma A_both_empty:
  assumes key: "\<not> falsy (API_KEY P)"
    and empty0: "answers_empty (generateContent P 0 (request_A b m pr))"
    and empty1: "answers_empty (generateContent P 1 (request_A b m pr))"
  shows "fst (extract_A P b m pr) = Inr (JArray [])"
proof -
  from empty0 obtain t where t: "generateContent P 0 (request_A b m pr) = Text t" "falsy t"
    by (auto simp: answers_empty_def split: response.splits)
  from empty1 obtain u where u: "generateContent P 1 (request_A b m pr) = Text u" "falsy u"
    by (auto simp: answers_empty_def split: response.splits)
  have "extract_A P b m pr =
      extractTransactionsFromDocument_A P [request_A b m pr] b m pr 1"
    using A_retry [OF key, of "[]" b m pr t 0] t by (simp add: extract_A_def)
  then show ?thesis
    using A_give_up [OF key, of "[request_A b m pr]" b m pr u 1] u by simp
qed

lemma B_first_empty_sent:
  assumes key: "\<not> falsy (API_KEY P)"
    and empty: "answers_empty (generateContent P 0 (request_B b m pr))"
  shows "snd (extract_B P b m pr) = [request_B b m pr, request_B b m pr]"
proof -
  from empty obtain t where t: "generateContent P 0 (request_B b m pr) = Text t" "falsy t"
    by (auto simp: answers_empty_def split: response.splits)
  have "extract_B P b m pr =
      extractTransactionsFromDocument_B P [request_B b m pr] b m pr 1"
    using B_retry [OF key, of "[]" b m pr t 0] t by (simp add: extract_B_def)
  then show ?thesis
    using B_last_attempt_sent [OF key, of 1 "[request_B b m pr]" b m pr] by simp
qed

lemma B_both_empty:
  assumes key: "\<not> falsy (API_KEY P)"
    and empty0: "answers_empty (generateContent P 0 (request_B b m pr))"
    and empty1: "answers_empty (generateContent P 1 (request_B b m pr))"
  shows "fst (extract_B P b m pr) = Inr (JArray [])"
proof -
  from empty0 obtain t where t: "generateContent P 0 (request_B b m pr) = Text t" "falsy t"
    by (auto simp: answers_empty_def split: response.splits)
  from empty1 obtain u where u: "generateContent P 1 (request_B b m pr) = Text u" "falsy u"
    by (auto simp: answers_empty_def split: response.splits)
  have "extract_B P b m pr =
      extractTransactionsFromDocument_B P [request_B b m pr] b m pr 1"
    using B_retry [OF key, of "[]" b m pr t 0] t by (simp add: extract_B_def)
  then show ?thesis
    using B_give_up [OF key, of "[request_B b m pr]" b m pr u 1] u by simp
qed

lemma A_models:
  assumes "\<not> falsy (API_KEY P)"
  shows "model ` set (snd (extract_A P b m pr)) = {modelName_A (cleanBase64_of b) pr}"
proof -
  from A_sent [OF assms, of "[]" b m pr 0] obtain k where
    "1 \<le> k" "snd (extract_A P b m pr) = replicate k (request_A b m pr)"
    by (auto simp: extract_A_def)
  then show ?thesis by (simp add: request_A_def)
qed

lemma B_models:
  assumes "\<not> falsy (API_KEY P)"
  shows "model ` set (snd (extract_B P b m pr)) = {modelName_B pr}"
proof -
  from B_sent [OF assms, of "[]" b m pr 0] obtain k where
    "1 \<le> k" "snd (extract_B P b m pr) = replicate k (request_B b m pr)"
    by (auto simp: extract_B_def)
  then show ?thesis by (simp add: request_B_def)
qed

lemma strip_truncated: "strip_fences truncated_response = truncated_response"
  by (simp add: strip_fences_def truncated_response_def trim_def isWhiteSpace_def)

lemma truncated_split: "truncated_response = complete_prefix @ ''}'' @ dropped_fragment"
  by (simp add: truncated_response_def complete_prefix_def dropped_fragment_def)

lemma parse_salary: "parse_json_text (complete_prefix @ ''}]'') = Some (JArray [salary_transaction])"
  by (simp add: complete_prefix_def json_eval salary_transaction_def)

lemma parse_truncated: "parse_json_text truncated_response = None"
  by (simp add: truncated_response_def json_eval)

lemma cleanJson_A_truncated: "cleanJson_A truncated_response = complete_prefix @ ''}]''"
proof (rule repair_truncated [where suf = dropped_fragment])
  show "startsWith (strip_fences truncated_response) ''[''"
    by (simp add: strip_truncated) (simp add: truncated_response_def)
  show "\<not> endsWith (strip_fences truncated_response) '']''"
    by (simp add: strip_truncated) (simp add: truncated_response_def endsWith_def)
  show "strip_fences truncated_response = complete_prefix @ CHR ''}'' # dropped_fragment"
    using truncated_split by (simp add: strip_truncated)
  show "CHR ''}'' \<notin> set dropped_fragment"
    by (simp add: dropped_fragment_def)
qed

lemma A_truncated:
  "fst (extract_A (test_platform [Text (Some truncated_response)]) b m pr) =
     Inr (JArray [salary_transaction])"
proof -
  let ?P = "test_platform [Text (Some truncated_response)]"
  have key: "\<not> falsy (API_KEY ?P)" by (simp add: test_platform_def falsy_def)
  have "generateContent ?P (length ([] :: request list)) (request_A b m pr) =
      Text (Some truncated_response)"
    by (simp add: test_platform_def scripted_def)
  moreover have "\<not> falsy (Some truncated_response)"
    by (simp add: falsy_def truncated_response_def)
  ultimately have "fst (extract_A ?P b m pr) =
      parse_A ?P pr (modelName_A (cleanBase64_of b) pr) truncated_response"
    using A_text [OF key, of "[]" b m pr "Some truncated_response" 0]
    by (simp add: extract_A_def text_of_def)
  also have "\<dots> = Inr (JArray [salary_transaction])"
    using parse_salary by (simp add: parse_A_def cleanJson_A_truncated test_platform_def)
  finally show ?thesis .
qed

text \<open>
  A parse failure is thrown inside the outer \<open>try\<close>, so the outer \<open>catch\<close> maps it like any
  other error. Its text matches none of the patterns of either revision: the caller gets the
  generic message, with the tag of the tier where there is one.
\<close>

lemma errStr_of_parse_failure:
  "errStr_of parse_failure = ''failed to parse the financial data. the document might be illegible.''"
  by (simp add: errStr_of_def error_text_def parse_failure_def Error_of_def falsy_def text_of_def
      msg_illegible_def toLowerCase_def toLowerCase_unit_def char_of_eq_iff)

lemma friendlyMessage_A_parse_failure: "friendlyMessage_A (errStr_of parse_failure) = msg_default"
  by (simp add: errStr_of_parse_failure friendlyMessage_A_def)

lemma friendlyMessage_B_parse_failure: "friendlyMessage_B pr (errStr_of parse_failure) = msg_default"
  by (simp add: errStr_of_parse_failure friendlyMessage_B_def)

lemma parse_failure_message_A:
  "JSON_parse P (cleanJson_A t) = None \<Longrightarrow>
     parse_A P pr mn t =
       Inl (if pr = GROK_BETA \<or> mn = ''gemini-3-pro-preview''
            then ''[Pro Audit] '' @ msg_default else msg_default)"
  by (simp add: parse_A_def catch_A_def friendlyMessage_A_parse_failure)

lemma parse_failure_message_B:
  "JSON_parse P (cleanJson_B t) = None \<Longrightarrow>
     parse_B P pr t =
       Inl (if pr = GROK_BETA then ''[Grok Beta] '' @ msg_default else msg_default)"
  by (simp add: parse_B_def catch_B_def friendlyMessage_B_parse_failure)

section \<open>The extraction pipeline: the claims\<close>

text \<open>
  Claim C6. In both revisions, when the key is set and the first answer of the provider has no
  text, the request is sent exactly twice, the second time unchanged; when the second answer
  has no text either, the call succeeds with the empty list of transactions.
\<close>

theorem empty_response_retried_once:
  "(\<not> falsy (API_KEY P) \<and> answers_empty (generateContent P 0 (request_A b m pr)) \<longrightarrow>
      snd (extract_A P b m pr) = [request_A b m pr, request_A b m pr] \<and>
      (answers_empty (generateContent P 1 (request_A b m pr)) \<longrightarrow>
         fst (extract_A P b m pr) = Inr (JArray []))) \<and>
   (\<not> falsy (API_KEY P) \<and> answers_empty (generateContent P 0 (request_B b m pr)) \<longrightarrow>
      snd (extract_B P b m pr) = [request_B b m pr, request_B b m pr] \<and>
      (answers_empty (generateContent P 1 (request_B b m pr)) \<longrightarrow>
         fst (extract_B P b m pr) = Inr (JArray [])))"
  using A_first_empty_sent A_both_empty B_first_empty_sent B_both_empty by blast

theorem empty_response_retried_once_witness:
  "\<not> falsy (API_KEY (test_platform [Text None, Text (Some [])])) \<and>
   answers_empty (generateContent (test_platform [Text None, Text (Some [])]) 0
     (request_A ''AAAA'' ''application/pdf'' GEMINI_FLASH)) \<and>
   answers_empty (generateContent (test_platform [Text None, Text (Some [])]) 1
     (request_A ''AAAA'' ''application/pdf'' GEMINI_FLASH)) \<and>
   answers_empty (generateContent (test_platform [Text None, Text (Some [])]) 0
     (request_B ''AAAA'' ''application/pdf'' GEMINI_FLASH)) \<and>
   answers_empty (generateContent (test_platform [Text None, Text (Some [])]) 1
     (request_B ''AAAA'' ''application/pdf'' GEMINI_FLASH)) \<and>
   snd (extract_A (test_platform [Text None, Text (Some [])]) ''AAAA'' ''application/pdf'' GEMINI_FLASH) =
     [request_A ''AAAA'' ''application/pdf'' GEMINI_FLASH,
      request_A ''AAAA'' ''application/pdf'' GEMINI_FLASH] \<and>
   fst (extract_A (test_platform [Text None, Text (Some [])]) ''AAAA'' ''application/pdf'' GEMINI_FLASH) =
     Inr (JArray []) \<and>
   snd (extract_B (test_platform [Text None, Text (Some [])]) ''AAAA'' ''application/pdf'' GEMINI_FLASH) =
     [request_B ''AAAA'' ''application/pdf'' GEMINI_FLASH,
      request_B ''AAAA'' ''application/pdf'' GEMINI_FLASH] \<and>
   fst (extract_B (test_platform [Text None, Text (Some [])]) ''AAAA'' ''application/pdf'' GEMINI_FLASH) =
     Inr (JArray [])"
  using empty_response_retried_once
    [of "test_platform [Text None, Text (Some [])]" "''AAAA''" "''application/pdf''" GEMINI_FLASH]
  by (simp add: test_platform_def scripted_def answers_empty_def falsy_def)

text \<open>
  Claim C7, amended. In revision A, when the text of the answer, with the code fences removed
  and trimmed, opens with \<open>[\<close>, does not end with \<open>]\<close> and has a last \<open>}\<close>, the text handed
  to the parser is the part up to and including that \<open>}\<close>, followed by \<open>]\<close>, and the call
  returns what the parser makes of it. The truncated answer of the specification gives exactly
  the one complete transaction. Revision B has no repair: it returns what the parser makes of
  the stripped text. What the caller sees when the parser fails is not part of this statement.
\<close>

theorem truncated_array_repaired:
  "(\<not> falsy (API_KEY P) \<and> generateContent P 0 (request_A b m pr) = Text (Some t) \<and> t \<noteq> [] \<and>
    startsWith (strip_fences t) ''['' \<and> \<not> endsWith (strip_fences t) '']'' \<and>
    strip_fences t = pre @ ''}'' @ suf \<and> CHR ''}'' \<notin> set suf \<and>
    JSON_parse P (pre @ ''}]'') = Some v \<longrightarrow>
      cleanJson_A t = pre @ ''}]'' \<and> fst (extract_A P b m pr) = Inr v) \<and>
   fst (extract_A (test_platform [Text (Some truncated_response)]) b m pr) =
     Inr (JArray [salary_transaction]) \<and>
   (\<not> falsy (API_KEY P) \<and> generateContent P 0 (request_B b m pr) = Text (Some t) \<and> t \<noteq> [] \<and>
    JSON_parse P (strip_fences t) = Some v \<longrightarrow>
      fst (extract_B P b m pr) = Inr v)"
proof (intro conjI impI)
  assume h: "\<not> falsy (API_KEY P) \<and> generateContent P 0 (request_A b m pr) = Text (Some t) \<and> t \<noteq> [] \<and>
    startsWith (strip_fences t) ''['' \<and> \<not> endsWith (strip_fences t) '']'' \<and>
    strip_fences t = pre @ ''}'' @ suf \<and> CHR ''}'' \<notin> set suf \<and>
    JSON_parse P (pre @ ''}]'') = Some v"
  then have s1: "startsWith (strip_fences t) ''[''"
    and s2: "\<not> endsWith (strip_fences t) '']''"
    and s4: "CHR ''}'' \<notin> set suf"
    by blast+
  from h have "strip_fences t = pre @ ''}'' @ suf" by blast
  then have s3: "strip_fences t = pre @ CHR ''}'' # suf" by simp
  have repaired: "cleanJson_A t = pre @ ''}]''"
    by (rule repair_truncated [OF s1 s2 s3 s4])
  then show "cleanJson_A t = pre @ ''}]''" .
  have "\<not> falsy (Some t)" using h by (simp add: falsy_def)
  then have "fst (extract_A P b m pr) = parse_A P pr (modelName_A (cleanBase64_of b) pr) t"
    using h A_text [of P "[]" b m pr "Some t" 0] by (simp add: extract_A_def text_of_def)
  then show "fst (extract_A P b m pr) = Inr v"
    using h repaired by (simp add: parse_A_def)
next
  show "fst (extract_A (test_platform [Text (Some truncated_response)]) b m pr) =
     Inr (JArray [salary_transaction])"
    by (rule A_truncated)
next
  assume h: "\<not> falsy (API_KEY P) \<and> generateContent P 0 (request_B b m pr) = Text (Some t) \<and> t \<noteq> [] \<and>
    JSON_parse P (strip_fences t) = Some v"
  have "\<not> falsy (Some t)" using h by (simp add: falsy_def)
  then have "fst (extract_B P b m pr) = parse_B P pr t"
    using h B_text [of P "[]" b m pr "Some t" 0] by (simp add: extract_B_def text_of_def)
  then show "fst (extract_B P b m pr) = Inr v"
    using h by (simp add: parse_B_def cleanJson_B_def)
qed

theorem truncated_array_repaired_witness:
  "\<not> falsy (API_KEY (test_platform [Text (Some truncated_response)])) \<and>
   generateContent (test_platform [Text (Some truncated_response)]) 0
     (request_A ''AAAA'' ''application/pdf'' GEMINI_FLASH) = Text (Some truncated_response) \<and>
   truncated_response \<noteq> [] \<and>
   startsWith (strip_fences truncated_response) ''['' \<and>
   \<not> endsWith (strip_fences truncated_response) '']'' \<and>
   strip_fences truncated_response = complete_prefix @ ''}'' @ dropped_fragment \<and>
   CHR ''}'' \<notin> set dropped_fragment \<and>
   JSON_parse (test_platform [Text (Some truncated_response)]) (complete_prefix @ ''}]'') =
     Some (JArray [salary_transaction]) \<and>
   cleanJson_A truncated_response = complete_prefix @ ''}]'' \<and>
   fst (extract_A (test_platform [Text (Some truncated_response)])
          ''AAAA'' ''application/pdf'' GEMINI_FLASH) = Inr (JArray [salary_transaction]) \<and>
   \<not> falsy (API_KEY (test_platform [Text (Some fenced_empty)])) \<and>
   generateContent (test_platform [Text (Some fenced_empty)]) 0
     (request_B ''AAAA'' ''application/pdf'' GEMINI_FLASH) = Text (Some fenced_empty) \<and>
   fenced_empty \<noteq> [] \<and>
   JSON_parse (test_platform [Text (Some fenced_empty)]) (strip_fences fenced_empty) =
     Some (JArray []) \<and>
   fst (extract_B (test_platform [Text (Some fenced_empty)])
          ''AAAA'' ''application/pdf'' GEMINI_FLASH) = Inr (JArray [])"
proof -
  let ?P = "test_platform [Text (Some truncated_response)]"
  let ?Q = "test_platform [Text (Some fenced_empty)]"
  have a1: "\<not> falsy (API_KEY ?P)" by (simp add: test_platform_def falsy_def)
  have a2: "generateContent ?P 0 (request_A ''AAAA'' ''application/pdf'' GEMINI_FLASH) =
      Text (Some truncated_response)"
    by (simp add: test_platform_def scripted_def)
  have a3: "truncated_response \<noteq> []" by (simp add: truncated_response_def)
  have a4: "startsWith (strip_fences truncated_response) ''[''"
    by (simp add: strip_truncated) (simp add: truncated_response_def)
  have a5: "\<not> endsWith (strip_fences truncated_response) '']''"
    by (simp add: strip_truncated) (simp add: truncated_response_def endsWith_def)
  have a6: "strip_fences truncated_response = complete_prefix @ ''}'' @ dropped_fragment"
    using truncated_split by (simp add: strip_truncated)
  have a7: "CHR ''}'' \<notin> set dropped_fragment" by (simp add: dropped_fragment_def)
  have a8: "JSON_parse ?P (complete_prefix @ ''}]'') = Some (JArray [salary_transaction])"
    using parse_salary by (simp add: test_platform_def)
  have b1: "\<not> falsy (API_KEY ?Q)" by (simp add: test_platform_def falsy_def)
  have b2: "generateContent ?Q 0 (request_B ''AAAA'' ''application/pdf'' GEMINI_FLASH) =
      Text (Some fenced_empty)"
    by (simp add: test_platform_def scripted_def)
  have b3: "fenced_empty \<noteq> []" by (simp add: fenced_empty_def)
  have "strip_fences fenced_empty = ''[]''"
    by (simp add: strip_fences_def fenced_empty_def trim_def isWhiteSpace_def)
  then have b4: "JSON_parse ?Q (strip_fences fenced_empty) = Some (JArray [])"
    by (simp add: test_platform_def json_eval)
  from truncated_array_repaired
         [of ?P "''AAAA''" "''application/pdf''" GEMINI_FLASH truncated_response
             complete_prefix dropped_fragment "JArray [salary_transaction]"]
       a1 a2 a3 a4 a5 a6 a7 a8
  have c1: "cleanJson_A truncated_response = complete_prefix @ ''}]''"
    and c2: "fst (extract_A ?P ''AAAA'' ''application/pdf'' GEMINI_FLASH) =
      Inr (JArray [salary_transaction])"
    by blast+
  from truncated_array_repaired
         [of ?Q "''AAAA''" "''application/pdf''" GEMINI_FLASH fenced_empty "[]" "[]" "JArray []"]
       b1 b2 b3 b4
  have c3: "fst (extract_B ?Q ''AAAA'' ''application/pdf'' GEMINI_FLASH) = Inr (JArray [])"
    by blast
  from a1 a2 a3 a4 a5 a6 a7 a8 b1 b2 b3 b4 c1 c2 c3 show ?thesis by blast
qed

text \<open>
  Claim C7 as it stands fails twice. Revision B does not repair the truncated answer of the
  specification, and the call fails. In revision A an answer that the repair cannot save, here
  one whose last \<open>}\<close> is inside a string, fails with the generic message and not with the
  message about an illegible document.
\<close>

theorem truncated_array_repaired_counterexample:
  "fst (extract_B (test_platform [Text (Some truncated_response)])
          ''AAAA'' ''application/pdf'' GEMINI_FLASH) = Inl msg_default \<and>
   fst (extract_A (test_platform [Text (Some unrepairable_response)])
          ''AAAA'' ''application/pdf'' GEMINI_FLASH) = Inl msg_default \<and>
   msg_default \<noteq> msg_illegible"
proof -
  let ?P = "test_platform [Text (Some truncated_response)]"
  let ?Q = "test_platform [Text (Some unrepairable_response)]"
  have keyP: "\<not> falsy (API_KEY ?P)" and keyQ: "\<not> falsy (API_KEY ?Q)"
    by (simp_all add: test_platform_def falsy_def)
  have "fst (extract_B ?P ''AAAA'' ''application/pdf'' GEMINI_FLASH) =
      parse_B ?P GEMINI_FLASH truncated_response"
    using B_text [OF keyP, of "[]" "''AAAA''" "''application/pdf''" GEMINI_FLASH
        "Some truncated_response" 0]
    by (simp add: extract_B_def text_of_def falsy_def truncated_response_def
        test_platform_def scripted_def)
  moreover have "JSON_parse ?P (cleanJson_B truncated_response) = None"
    using parse_truncated by (simp add: cleanJson_B_def strip_truncated test_platform_def)
  ultimately have b: "fst (extract_B ?P ''AAAA'' ''application/pdf'' GEMINI_FLASH) = Inl msg_default"
    by (simp add: parse_failure_message_B)
  have small: "modelName_A (cleanBase64_of ''AAAA'') GEMINI_FLASH = ''gemini-flash-latest''"
    by (simp add: modelName_A_def cleanBase64_of_def approximateSizeInMB_def)
  have "fst (extract_A ?Q ''AAAA'' ''application/pdf'' GEMINI_FLASH) =
      parse_A ?Q GEMINI_FLASH ''gemini-flash-latest'' unrepairable_response"
    using A_text [OF keyQ, of "[]" "''AAAA''" "''application/pdf''" GEMINI_FLASH
        "Some unrepairable_response" 0] small
    by (simp add: extract_A_def text_of_def falsy_def unrepairable_response_def
        test_platform_def scripted_def)
  moreover have "JSON_parse ?Q (cleanJson_A unrepairable_response) = None"
    by (simp add: cleanJson_A_def strip_fences_def unrepairable_response_def trim_def
        isWhiteSpace_def endsWith_def lastIndexOf_def substring0_def test_platform_def json_eval)
  ultimately have a: "fst (extract_A ?Q ''AAAA'' ''application/pdf'' GEMINI_FLASH) = Inl msg_default"
    by (simp add: parse_failure_message_A)
  have "msg_default \<noteq> msg_illegible" by (simp add: msg_default_def msg_illegible_def)
  with a b show ?thesis by blast
qed

text \<open>
  Claim C8, amended. The catch block reads \<open>error.message\<close>, or \<open>error.toString()\<close> when the
  message is empty. In both revisions, when this text contains \<open>429\<close> and its lower-case form
  contains none of \<open>api key\<close>, \<open>403\<close>, \<open>404\<close> and \<open>not found\<close>, the error is mapped to the
  message about the traffic limit. The rules for these four patterns come first: a text with
  \<open>api key\<close> or \<open>403\<close> is mapped to the message about access, and otherwise one with
  \<open>404\<close> or \<open>not found\<close> to the message about the model, whether it contains \<open>429\<close> or not.
\<close>

theorem rate_limit_classification:
  "(str_includes (error_text e) ''429'' \<and>
    \<not> str_includes (errStr_of e) ''api key'' \<and> \<not> str_includes (errStr_of e) ''403'' \<and>
    \<not> str_includes (errStr_of e) ''404'' \<and> \<not> str_includes (errStr_of e) ''not found'' \<longrightarrow>
      friendlyMessage_A (errStr_of e) = msg_traffic \<and>
      friendlyMessage_B pr (errStr_of e) = msg_traffic) \<and>
   (str_includes (errStr_of e) ''api key'' \<or> str_includes (errStr_of e) ''403'' \<longrightarrow>
      friendlyMessage_A (errStr_of e) = msg_access_denied \<and>
      friendlyMessage_B pr (errStr_of e) = msg_access_denied) \<and>
   (\<not> str_includes (errStr_of e) ''api key'' \<and> \<not> str_includes (errStr_of e) ''403'' \<and>
    (str_includes (errStr_of e) ''404'' \<or> str_includes (errStr_of e) ''not found'') \<longrightarrow>
      friendlyMessage_A (errStr_of e) = msg_unavailable_A \<and>
      friendlyMessage_B pr (errStr_of e) = msg_unavailable_B)"
  using includes_429_lower [of "error_text e"]
  by (auto simp: errStr_of_def friendlyMessage_A_def friendlyMessage_B_def)

theorem rate_limit_classification_witness:
  "str_includes (error_text (Error_of ''got status: 429 Too Many Requests'')) ''429'' \<and>
   \<not> str_includes (errStr_of (Error_of ''got status: 429 Too Many Requests'')) ''api key'' \<and>
   \<not> str_includes (errStr_of (Error_of ''got status: 429 Too Many Requests'')) ''403'' \<and>
   \<not> str_includes (errStr_of (Error_of ''got status: 429 Too Many Requests'')) ''404'' \<and>
   \<not> str_includes (errStr_of (Error_of ''got status: 429 Too Many Requests'')) ''not found'' \<and>
   friendlyMessage_A (errStr_of (Error_of ''got status: 429 Too Many Requests'')) = msg_traffic \<and>
   friendlyMessage_B GEMINI_FLASH (errStr_of (Error_of ''got status: 429 Too Many Requests'')) =
     msg_traffic \<and>
   str_includes (errStr_of (Error_of ''403 Forbidden'')) ''403'' \<and>
   friendlyMessage_A (errStr_of (Error_of ''403 Forbidden'')) = msg_access_denied \<and>
   friendlyMessage_B GEMINI_FLASH (errStr_of (Error_of ''403 Forbidden'')) = msg_access_denied \<and>
   \<not> str_includes (errStr_of (Error_of ''Model Not Found'')) ''api key'' \<and>
   \<not> str_includes (errStr_of (Error_of ''Model Not Found'')) ''403'' \<and>
   str_includes (errStr_of (Error_of ''Model Not Found'')) ''not found'' \<and>
   friendlyMessage_A (errStr_of (Error_of ''Model Not Found'')) = msg_unavailable_A \<and>
   friendlyMessage_B GEMINI_FLASH (errStr_of (Error_of ''Model Not Found'')) = msg_unavailable_B"
proof -
  have t1: "error_text (Error_of ''got status: 429 Too Many Requests'') =
      ''got status: 429 Too Many Requests''"
    and s1: "errStr_of (Error_of ''got status: 429 Too Many Requests'') =
      ''got status: 429 too many requests''"
    and s2: "errStr_of (Error_of ''403 Forbidden'') = ''403 forbidden''"
    and s3: "errStr_of (Error_of ''Model Not Found'') = ''model not found''"
    by (simp_all add: errStr_of_def error_text_def Error_of_def falsy_def text_of_def
        toLowerCase_def toLowerCase_unit_def char_of_eq_iff)
  have h1: "str_includes (error_text (Error_of ''got status: 429 Too Many Requests'')) ''429''"
    and h2: "\<not> str_includes (errStr_of (Error_of ''got status: 429 Too Many Requests'')) ''api key''"
    and h3: "\<not> str_includes (errStr_of (Error_of ''got status: 429 Too Many Requests'')) ''403''"
    and h4: "\<not> str_includes (errStr_of (Error_of ''got status: 429 Too Many Requests'')) ''404''"
    and h5: "\<not> str_includes (errStr_of (Error_of ''got status: 429 Too Many Requests'')) ''not found''"
    by (simp_all add: t1 s1)
  have h6: "str_includes (errStr_of (Error_of ''403 Forbidden'')) ''403''"
    by (simp add: s2)
  have h7: "\<not> str_includes (errStr_of (Error_of ''Model Not Found'')) ''api key''"
    and h8: "\<not> str_includes (errStr_of (Error_of ''Model Not Found'')) ''403''"
    and h9: "str_includes (errStr_of (Error_of ''Model Not Found'')) ''not found''"
    by (simp_all add: s3)
  from rate_limit_classification [of "Error_of ''got status: 429 Too Many Requests''" GEMINI_FLASH]
    h1 h2 h3 h4 h5
  have c1: "friendlyMessage_A (errStr_of (Error_of ''got status: 429 Too Many Requests'')) = msg_traffic"
    and c2: "friendlyMessage_B GEMINI_FLASH (errStr_of (Error_of ''got status: 429 Too Many Requests'')) =
      msg_traffic"
    by blast+
  from rate_limit_classification [of "Error_of ''403 Forbidden''" GEMINI_FLASH] h6
  have c3: "friendlyMessage_A (errStr_of (Error_of ''403 Forbidden'')) = msg_access_denied"
    and c4: "friendlyMessage_B GEMINI_FLASH (errStr_of (Error_of ''403 Forbidden'')) = msg_access_denied"
    by blast+
  from rate_limit_classification [of "Error_of ''Model Not Found''" GEMINI_FLASH] h7 h8 h9
  have c5: "friendlyMessage_A (errStr_of (Error_of ''Model Not Found'')) = msg_unavailable_A"
    and c6: "friendlyMessage_B GEMINI_FLASH (errStr_of (Error_of ''Model Not Found'')) = msg_unavailable_B"
    by blast+
  from h1 h2 h3 h4 h5 h6 h7 h8 h9 c1 c2 c3 c4 c5 c6 show ?thesis by blast
qed

text \<open>
  Claim C8 as it stands fails: an error text with \<open>429\<close> that also names the API key is
  mapped to the message about access.
\<close>

theorem rate_limit_classification_counterexample:
  "str_includes (error_text (Error_of ''429 Too Many Requests for this API key'')) ''429'' \<and>
   friendlyMessage_A (errStr_of (Error_of ''429 Too Many Requests for this API key'')) =
     msg_access_denied \<and>
   friendlyMessage_B GEMINI_FLASH (errStr_of (Error_of ''429 Too Many Requests for this API key'')) =
     msg_access_denied \<and>
   msg_access_denied \<noteq> msg_traffic"
  by (simp add: Error_of_def errStr_of_def error_text_def falsy_def text_of_def toLowerCase_def
      toLowerCase_unit_def char_of_eq_iff friendlyMessage_A_def friendlyMessage_B_def
      msg_access_denied_def msg_traffic_def)

text \<open>
  Claim C9, amended. In revision A every request of a call names the high-capacity model when
  the approximate decoded size of the payload is above 10 MB or the caller chose Gemini Pro or
  Grok, and the fast model otherwise: the choice is a function of the payload and of the
  provider, the same for the retry. In revision B the size plays no part: the model follows
  the provider alone.
\<close>

theorem model_selection:
  "(\<not> falsy (API_KEY P) \<longrightarrow>
      model ` set (snd (extract_A P b m pr)) =
        {if 10 < approximateSizeInMB (cleanBase64_of b) \<or> pr = GEMINI_PRO \<or> pr = GROK_BETA
         then ''gemini-3-pro-preview'' else ''gemini-flash-latest''}) \<and>
   (\<not> falsy (API_KEY P) \<longrightarrow>
      model ` set (snd (extract_B P b m pr)) =
        {if pr = GEMINI_PRO \<or> pr = GROK_BETA
         then ''gemini-3-pro-preview'' else ''gemini-flash-latest''})"
  using A_models [of P b m pr] B_models [of P b m pr]
  by (simp add: modelName_A_def modelName_B_def)

theorem model_selection_witness:
  "\<not> falsy (API_KEY (test_platform [Text (Some ''[]'')])) \<and>
   10 < approximateSizeInMB (cleanBase64_of big_payload) \<and>
   model ` set (snd (extract_A (test_platform [Text (Some ''[]'')]) big_payload ''application/pdf'' GEMINI_FLASH)) =
     {''gemini-3-pro-preview''} \<and>
   model ` set (snd (extract_B (test_platform [Text (Some ''[]'')]) big_payload ''application/pdf'' GEMINI_FLASH)) =
     {''gemini-flash-latest''}"
  using model_selection [of "test_platform [Text (Some ''[]'')]" big_payload "''application/pdf''" GEMINI_FLASH]
    big_payload_size
  by (simp add: test_platform_def falsy_def)

text \<open>
  Claim C9 as it stands fails in revision B: a payload above the threshold, sent with the fast
  tier, goes to the fast model.
\<close>

theorem model_selection_counterexample:
  "10 < approximateSizeInMB (cleanBase64_of big_payload) \<and>
   map model (snd (extract_B (test_platform [Text (Some ''[]'')]) big_payload ''application/pdf'' GEMINI_FLASH)) =
     [''gemini-flash-latest'']"
proof -
  have "snd (extract_B (test_platform [Text (Some ''[]'')]) big_payload ''application/pdf'' GEMINI_FLASH) =
      [request_B big_payload ''application/pdf'' GEMINI_FLASH]"
    unfolding extract_B_def
    by (subst extractTransactionsFromDocument_B.simps)
       (simp add: test_platform_def scripted_def falsy_def)
  then show ?thesis
    using big_payload_size by (simp add: request_B_def modelName_B_def)
qed

end
